theory Spec2Isabelle
  imports Main "HOL-Library.Word" "HOL-Library.Multiset"
begin

unbundle bit_operations_syntax

section \<open>Data model\<close>

text \<open>
  The message compiler and codec of \<^verbatim>\<open>types/message.go\<close> and the length-prefix encoder of
  \<^verbatim>\<open>common/byte.go\<close>. Go's \<^verbatim>\<open>byte\<close>/\<^verbatim>\<open>uint8\<close> is an 8-bit word, \<^verbatim>\<open>uint64\<close> a 64-bit word.
  \<^verbatim>\<open>int\<close> has 64 bits; its values here are list positions and lengths, or the two's
  complement reading of a \<^verbatim>\<open>uint64\<close>, and are modelled as integers.
\<close>

text \<open>
  Modelled from the spec: the declarations of \<^verbatim>\<open>common.PublicKey\<close>,
  \<^verbatim>\<open>common.ZeroPublicKey\<close>, \<^verbatim>\<open>AccountMeta\<close>, \<^verbatim>\<open>Instruction\<close> and
  \<^verbatim>\<open>CompiledInstruction\<close> are not among the sources. The records have the fields that
  \<^verbatim>\<open>message.go\<close> reads and writes, which are those of the specification's data model. An
  account identity is a fixed-size array of 32 bytes; it is modelled as a list of bytes,
  and a key is well formed when its length is 32. The zero key is the zero value of the
  array type.
\<close>

type_synonym byte = "8 word"
type_synonym uint64 = "64 word"
type_synonym PublicKey = "byte list"

definition ZeroPublicKey :: PublicKey where
  "ZeroPublicKey = replicate 32 0"

text \<open>
  A runtime panic (index or slice bounds out of range) is the error value \<open>Panic\<close>. The
  other constructors are the error returns of the source: the error of the base58
  decoder in \<^verbatim>\<open>Serialize\<close>, and the \<^verbatim>\<open>errors.New\<close>/\<^verbatim>\<open>fmt.Errorf\<close> returns of
  \<^verbatim>\<open>MessageDeserialize\<close>, which carry the positions the messages print.
\<close>

datatype error =
    Panic
  | Base58Error
  | HeaderParseError nat
  | AccountParseError
  | BlockhashParseError
  | InstructionCountError
  | ProgramIDError nat
  | AccountCountError nat
  | AccountIdxError nat nat
  | DataLengthError nat

record AccountMeta =
  PubKey :: PublicKey
  IsSigner :: bool
  IsWritable :: bool

record Instruction =
  ProgramID :: PublicKey
  Accounts :: "AccountMeta list"
  Data :: "byte list"

record CompiledInstruction =
  ProgramIDIndex :: int
  Accounts :: "int list"
  Data :: "byte list"

record MessageHeader =
  NumRequireSignatures :: byte
  NumReadonlySignedAccounts :: byte
  NumReadonlyUnsignedAccounts :: byte

record Message =
  Header :: MessageHeader
  Accounts :: "PublicKey list"
  RecentBlockHash :: string
  Instructions :: "CompiledInstruction list"

section \<open>Length prefixes: \<^verbatim>\<open>common.UintToVarLenBytes\<close>\<close>

definition MaxVarintLen64 :: nat where
  "MaxVarintLen64 = 10"

text \<open>
  \<^verbatim>\<open>binary.PutUvarint(buf, x)\<close> of the Go library: while \<^verbatim>\<open>x >= 0x80\<close> it stores
  \<^verbatim>\<open>byte(x) | 0x80\<close> at position \<open>i\<close> and shifts \<open>x\<close> right by 7, then stores the final
  byte. A store beyond the buffer panics. The function returns the buffer.
\<close>

function PutUvarint :: "byte list \<Rightarrow> nat \<Rightarrow> uint64 \<Rightarrow> error + byte list" where
  "PutUvarint buf i x =
     (if x \<ge> 0x80 then
        (if i < length buf then PutUvarint (buf[i := ucast x OR 0x80]) (i + 1) (drop_bit 7 x)
         else Inl Panic)
      else if i < length buf then Inr (buf[i := ucast x]) else Inl Panic)"
  by pat_completeness auto
termination
  by (relation "measure (\<lambda>(buf, i, x). unat x)")
     (simp_all add: unat_drop_bit_eq word_le_nat_alt drop_bit_eq_div unat_div)

declare PutUvarint.simps [simp del]

text \<open>
  \<^verbatim>\<open>trimTrailingZeroByte\<close>: the loop condition \<^verbatim>\<open>len(*b) >= 0\<close> always holds, so the loop
  ends either at a non-zero last byte or by indexing position \<open>-1\<close> of the empty slice.
\<close>

function trimTrailingZeroByte :: "byte list \<Rightarrow> error + byte list" where
  "trimTrailingZeroByte b =
     (if b = [] then Inl Panic
      else if last b \<noteq> 0 then Inr b
      else trimTrailingZeroByte (butlast b))"
  by pat_completeness auto
termination
  by (relation "measure length") auto

declare trimTrailingZeroByte.simps [simp del]

definition UintToVarLenBytes :: "uint64 \<Rightarrow> error + byte list" where
  "UintToVarLenBytes l =
     (case PutUvarint (replicate MaxVarintLen64 0) 0 l of
        Inl e \<Rightarrow> Inl e
      | Inr b \<Rightarrow> trimTrailingZeroByte b)"

text \<open>
  The encoding the specification describes: little-endian base 128, seven payload bits
  per byte, the continuation bit set on every byte but the last, no byte more than
  needed.
\<close>

fun uvarint :: "nat \<Rightarrow> byte list" where
  "uvarint n = (if n < 128 then [of_nat n] else of_nat (128 + n mod 128) # uvarint (n div 128))"

declare uvarint.simps [simp del]

section \<open>Reading a length prefix: \<^verbatim>\<open>parseUvarint\<close>\<close>

text \<open>
  Modelled from the spec: \<^verbatim>\<open>parseUvarint\<close> is called by \<^verbatim>\<open>MessageDeserialize\<close> but is
  declared in a file that is not among the sources. The specification (VarintCodec)
  says: decoding consumes bytes from a cursor until a byte with the continuation bit clear
  is read, reconstructing the integer; it fails if the cursor exhausts the buffer before a
  terminating byte, or if more than 10 bytes are consumed.

  \<open>uvarint_read i s x bs\<close> has read \<open>i\<close> bytes, holds the value \<open>x\<close> read so far and
  the shift \<open>s\<close> of the next payload. \<open>parseUvarint\<close> returns the value, whether an
  error is returned with it, and the cursor; on failure the value is 0 and the cursor has
  not moved (the Go convention \<^verbatim>\<open>return 0, err\<close>).
\<close>

fun uvarint_read :: "nat \<Rightarrow> nat \<Rightarrow> uint64 \<Rightarrow> byte list \<Rightarrow> (uint64 \<times> byte list) option" where
  "uvarint_read i s x [] = None"
| "uvarint_read i s x (b # bs) =
     (if i \<ge> MaxVarintLen64 then None
      else if b < 0x80 then Some (x OR push_bit s (ucast b), bs)
      else uvarint_read (i + 1) (s + 7) (x OR push_bit s (ucast (b AND 0x7f))) bs)"

definition parseUvarint :: "byte list \<Rightarrow> uint64 \<times> bool \<times> byte list" where
  "parseUvarint tx =
     (case uvarint_read 0 0 0 tx of
        None \<Rightarrow> (0, True, tx)
      | Some (u, rest) \<Rightarrow> (u, False, rest))"

section \<open>\<^verbatim>\<open>Message.Serialize\<close>\<close>

text \<open>
  The base58 codec is an external package. \<^verbatim>\<open>Serialize\<close> is given its decoder as the
  parameter \<open>dec\<close> (\<open>None\<close> when the decoder returns an error) and
  \<^verbatim>\<open>MessageDeserialize\<close> its encoder as the parameter \<open>enc\<close>.

  The loop over the instructions: \<^verbatim>\<open>byte(...)\<close> keeps the low eight bits of the program
  index, of each account index and of the payload length.
\<close>

fun serializeInstructions :: "CompiledInstruction list \<Rightarrow> error + byte list" where
  "serializeInstructions [] = Inr []"
| "serializeInstructions (instruction # rest) =
     (case UintToVarLenBytes (of_nat (length (CompiledInstruction.Accounts instruction))) of
        Inl e \<Rightarrow> Inl e
      | Inr n \<Rightarrow>
          (case serializeInstructions rest of
             Inl e \<Rightarrow> Inl e
           | Inr b \<Rightarrow>
               Inr ([of_int (ProgramIDIndex instruction)] @ n
                    @ map of_int (CompiledInstruction.Accounts instruction)
                    @ [of_nat (length (CompiledInstruction.Data instruction))]
                    @ CompiledInstruction.Data instruction @ b)))"

definition Serialize :: "(string \<Rightarrow> byte list option) \<Rightarrow> Message \<Rightarrow> error + byte list" where
  "Serialize dec m =
     (let b = [NumRequireSignatures (Header m), NumReadonlySignedAccounts (Header m),
               NumReadonlyUnsignedAccounts (Header m)]
      in case UintToVarLenBytes (of_nat (length (Message.Accounts m))) of
           Inl e \<Rightarrow> Inl e
         | Inr n \<Rightarrow>
             (let b = b @ n @ concat (Message.Accounts m)
              in case dec (RecentBlockHash m) of
                   None \<Rightarrow> Inl Base58Error
                 | Some blockHash \<Rightarrow>
                     (let b = b @ blockHash
                      in case UintToVarLenBytes (of_nat (length (Instructions m))) of
                           Inl e \<Rightarrow> Inl e
                         | Inr n \<Rightarrow>
                             (case serializeInstructions (Instructions m) of
                                Inl e \<Rightarrow> Inl e
                              | Inr is \<Rightarrow> Inr (b @ n @ is)))))"

section \<open>\<^verbatim>\<open>MessageDeserialize\<close>\<close>

text \<open>
  The header loop reads three values; the error of \<^verbatim>\<open>parseUvarint\<close> is not looked at,
  only a value above 255 is rejected. \<open>i\<close> counts the fields read so far.
\<close>

fun parseHeader :: "nat \<Rightarrow> nat \<Rightarrow> byte list \<Rightarrow> error + (byte list \<times> byte list)" where
  "parseHeader i 0 messageData = Inr ([], messageData)"
| "parseHeader i (Suc n) messageData =
     (case parseUvarint messageData of
        (t, err, messageData) \<Rightarrow>
          if t > 255 then Inl (HeaderParseError (i + 1))
          else (case parseHeader (i + 1) n messageData of
                  Inl e \<Rightarrow> Inl e
                | Inr (hs, rest) \<Rightarrow> Inr (ucast t # hs, rest)))"

text \<open>
  The account loop takes 32 bytes at a time; hex-encoding a 32-byte slice and reading
  it back with \<^verbatim>\<open>common.PublicKeyFromHex\<close> gives the key with those bytes.
\<close>

fun readAccounts :: "nat \<Rightarrow> byte list \<Rightarrow> PublicKey list \<times> byte list" where
  "readAccounts 0 messageData = ([], messageData)"
| "readAccounts (Suc n) messageData =
     (case readAccounts n (drop 32 messageData) of
        (accounts, rest) \<Rightarrow> (take 32 messageData # accounts, rest))"

text \<open>The inner loop over the account indices of instruction \<open>i\<close>; \<open>j\<close> counts them.\<close>

fun readAccountIdx :: "nat \<Rightarrow> nat \<Rightarrow> nat \<Rightarrow> byte list \<Rightarrow> error + (int list \<times> byte list)" where
  "readAccountIdx i j 0 messageData = Inr ([], messageData)"
| "readAccountIdx i j (Suc n) messageData =
     (case parseUvarint messageData of
        (accountIdx, err, messageData) \<Rightarrow>
          if err then Inl (AccountIdxError (i + 1) (j + 1))
          else (case readAccountIdx i (j + 1) n messageData of
                  Inl e \<Rightarrow> Inl e
                | Inr (accounts, rest) \<Rightarrow> Inr (sint accountIdx # accounts, rest)))"

text \<open>
  The loop over the instructions. The payload is cut off with the slice expressions
  \<^verbatim>\<open>messageData[:dataLen]\<close> and \<^verbatim>\<open>messageData[dataLen:]\<close>, which panic when \<open>dataLen\<close>
  exceeds the length of the remaining data; no check precedes them.
\<close>

fun readInstructions :: "nat \<Rightarrow> nat \<Rightarrow> byte list \<Rightarrow> error + (CompiledInstruction list \<times> byte list)" where
  "readInstructions i 0 messageData = Inr ([], messageData)"
| "readInstructions i (Suc n) messageData =
     (case parseUvarint messageData of
        (programID, err, messageData) \<Rightarrow>
          if err then Inl (ProgramIDError (i + 1))
          else (case parseUvarint messageData of
            (accountCount, err, messageData) \<Rightarrow>
              if err then Inl (AccountCountError (i + 1))
              else (case readAccountIdx i 0 (nat (sint accountCount)) messageData of
                Inl e \<Rightarrow> Inl e
              | Inr (accounts, messageData) \<Rightarrow>
                  (case parseUvarint messageData of
                    (dataLen, err, messageData) \<Rightarrow>
                      if err then Inl (DataLengthError (i + 1))
                      else if unat dataLen > length messageData then Inl Panic
                      else (case readInstructions (i + 1) n (drop (unat dataLen) messageData) of
                              Inl e \<Rightarrow> Inl e
                            | Inr (instructions, rest) \<Rightarrow>
                                Inr (\<lparr>ProgramIDIndex = sint programID,
                                      CompiledInstruction.Accounts = accounts,
                                      CompiledInstruction.Data = take (unat dataLen) messageData\<rparr>
                                     # instructions, rest))))))"

text \<open>
  \<^verbatim>\<open>int(accountCount)*32\<close> is a 64-bit signed product and may wrap. When the length check
  passes although the data is shorter than the accounts announced, the count is at least
  \<open>2^58\<close> and \<^verbatim>\<open>make\<close> panics on the capacity. Allocation limits are not modelled
  otherwise. A loop bound \<^verbatim>\<open>int(count)\<close> that is negative runs no iteration.
\<close>

definition MessageDeserialize :: "(byte list \<Rightarrow> string) \<Rightarrow> byte list \<Rightarrow> error + Message" where
  "MessageDeserialize enc messageData =
     (case parseHeader 0 3 messageData of
        Inl e \<Rightarrow> Inl e
      | Inr (hs, messageData) \<Rightarrow>
          (case parseUvarint messageData of
             (accountCount, err, messageData) \<Rightarrow>
               if int (length messageData) < sint (accountCount * 32) then Inl AccountParseError
               else if length messageData < unat accountCount * 32 then Inl Panic
               else (case readAccounts (unat accountCount) messageData of
                 (accounts, messageData) \<Rightarrow>
                   if length messageData < 32 then Inl BlockhashParseError
                   else
                     (let blockHash = enc (take 32 messageData);
                          messageData = drop 32 messageData
                      in case parseUvarint messageData of
                        (instructionCount, err, messageData) \<Rightarrow>
                          if err then Inl InstructionCountError
                          else (case readInstructions 0 (nat (sint instructionCount)) messageData of
                                  Inl e \<Rightarrow> Inl e
                                | Inr (instructions, rest) \<Rightarrow>
                                    Inr \<lparr>Header = \<lparr>NumRequireSignatures = hs ! 0,
                                                   NumReadonlySignedAccounts = hs ! 1,
                                                   NumReadonlyUnsignedAccounts = hs ! 2\<rparr>,
                                         Message.Accounts = accounts,
                                         RecentBlockHash = blockHash,
                                         Instructions = instructions\<rparr>)))))"

section \<open>\<^verbatim>\<open>NewMessage\<close>\<close>

text \<open>
  The account map is a Go map from keys to pointers to \<^verbatim>\<open>AccountMeta\<close>. Every pointer
  stored is fresh (the address of a composite literal, or of the variable \<^verbatim>\<open>account\<close>
  declared anew in each iteration), so the map is a map from keys to values.
\<close>

definition addAccount :: "(PublicKey \<rightharpoonup> AccountMeta) \<Rightarrow> AccountMeta \<Rightarrow> (PublicKey \<rightharpoonup> AccountMeta)" where
  "addAccount accountMap account =
     (case accountMap (PubKey account) of
        None \<Rightarrow> accountMap(PubKey account \<mapsto> account)
      | Some a \<Rightarrow>
          accountMap(PubKey account \<mapsto>
            a\<lparr>IsSigner := IsSigner a \<or> IsSigner account,
              IsWritable := IsWritable a \<or> IsWritable account\<rparr>))"

definition addInstruction :: "(PublicKey \<rightharpoonup> AccountMeta) \<Rightarrow> Instruction \<Rightarrow> (PublicKey \<rightharpoonup> AccountMeta)" where
  "addInstruction accountMap instruction =
     foldl addAccount
       (case accountMap (ProgramID instruction) of
          None \<Rightarrow> accountMap(ProgramID instruction \<mapsto>
                    \<lparr>PubKey = ProgramID instruction, IsSigner = False, IsWritable = False\<rparr>)
        | Some a \<Rightarrow> accountMap)
       (Instruction.Accounts instruction)"

definition mergeAccounts :: "Instruction list \<Rightarrow> (PublicKey \<rightharpoonup> AccountMeta)" where
  "mergeAccounts instructions = foldl addInstruction Map.empty instructions"

text \<open>
  \<^verbatim>\<open>for _, account := range accountMap\<close> visits every entry of the map once, in an order
  the language leaves open. The order of one run is the list \<open>ks\<close> of the keys as
  visited; \<open>iteration_order m ks\<close> says that \<open>ks\<close> is such an order for the map \<open>m\<close>.
\<close>

definition iteration_order :: "('k \<rightharpoonup> 'v) \<Rightarrow> 'k list \<Rightarrow> bool" where
  "iteration_order m ks \<longleftrightarrow> distinct ks \<and> set ks = dom m"

definition range_values :: "('k \<rightharpoonup> 'v) \<Rightarrow> 'k list \<Rightarrow> 'v list" where
  "range_values m ks = List.map_filter m ks"

record tiers =
  writableSignedAccount :: "PublicKey list"
  readOnlySignedAccount :: "PublicKey list"
  writableUnsignedAccount :: "PublicKey list"
  readOnlyUnsignedAccount :: "PublicKey list"

definition no_tiers :: tiers where
  "no_tiers = \<lparr>writableSignedAccount = [], readOnlySignedAccount = [],
               writableUnsignedAccount = [], readOnlyUnsignedAccount = []\<rparr>"

definition classify :: "tiers \<Rightarrow> AccountMeta \<Rightarrow> tiers" where
  "classify t account =
     (if IsSigner account then
        (if IsWritable account
         then t\<lparr>writableSignedAccount := writableSignedAccount t @ [PubKey account]\<rparr>
         else t\<lparr>readOnlySignedAccount := readOnlySignedAccount t @ [PubKey account]\<rparr>)
      else
        (if IsWritable account
         then t\<lparr>writableUnsignedAccount := writableUnsignedAccount t @ [PubKey account]\<rparr>
         else t\<lparr>readOnlyUnsignedAccount := readOnlyUnsignedAccount t @ [PubKey account]\<rparr>))"

definition classifyAccounts :: "PublicKey \<Rightarrow> AccountMeta list \<Rightarrow> tiers" where
  "classifyAccounts feePayer visited =
     (if feePayer \<noteq> ZeroPublicKey then
        (let t = foldl (\<lambda>t account. if feePayer = PubKey account then t else classify t account)
                   no_tiers visited
         in t\<lparr>writableSignedAccount := feePayer # writableSignedAccount t\<rparr>)
      else foldl classify no_tiers visited)"

text \<open>
  \<^verbatim>\<open>publicKeyToIdx\<close>: a later position of a key overwrites an earlier one; reading a key
  that is not in a Go map gives the zero value.
\<close>

definition publicKeyToIdx :: "PublicKey list \<Rightarrow> (PublicKey \<rightharpoonup> int)" where
  "publicKeyToIdx publicKeys =
     foldl (\<lambda>m (idx, publicKey). m(publicKey \<mapsto> int idx)) Map.empty (enumerate 0 publicKeys)"

definition lookupIdx :: "(PublicKey \<rightharpoonup> int) \<Rightarrow> PublicKey \<Rightarrow> int" where
  "lookupIdx m k = (case m k of None \<Rightarrow> 0 | Some idx \<Rightarrow> idx)"

definition compileInstruction :: "(PublicKey \<rightharpoonup> int) \<Rightarrow> Instruction \<Rightarrow> CompiledInstruction" where
  "compileInstruction m instruction =
     \<lparr>ProgramIDIndex = lookupIdx m (ProgramID instruction),
      CompiledInstruction.Accounts =
        map (\<lambda>account. lookupIdx m (PubKey account)) (Instruction.Accounts instruction),
      CompiledInstruction.Data = Instruction.Data instruction\<rparr>"

text \<open>
  \<open>NewMessage ks\<close> is the run of \<^verbatim>\<open>NewMessage\<close> in which the range loop over the account
  map visits the keys in the order \<open>ks\<close>. The header counts are converted with
  \<^verbatim>\<open>uint8(...)\<close>, which keeps the low eight bits.
\<close>

definition NewMessage :: "PublicKey list \<Rightarrow> PublicKey \<Rightarrow> Instruction list \<Rightarrow> string \<Rightarrow> Message" where
  "NewMessage ks feePayer instructions recentBlockHash =
     (let accountMap = mergeAccounts instructions;
          t = classifyAccounts feePayer (range_values accountMap ks);
          publicKeys = writableSignedAccount t @ readOnlySignedAccount t
                       @ writableUnsignedAccount t @ readOnlyUnsignedAccount t;
          m = publicKeyToIdx publicKeys
      in \<lparr>Header =
            \<lparr>NumRequireSignatures =
               of_nat (length (writableSignedAccount t) + length (readOnlySignedAccount t)),
             NumReadonlySignedAccounts = of_nat (length (readOnlySignedAccount t)),
             NumReadonlyUnsignedAccounts = of_nat (length (readOnlyUnsignedAccount t))\<rparr>,
          Message.Accounts = publicKeys,
          RecentBlockHash = recentBlockHash,
          Instructions = map (compileInstruction m) instructions\<rparr>)"

section \<open>A base58 codec for the examples\<close>

text \<open>
  The theorems below hold for every decoder and encoder. Where an example needs a concrete
  one, it uses base58 with the Bitcoin alphabet: a text is a number in base 58, most
  significant digit first, written as bytes in base 256; each leading \<open>1\<close> of the text
  stands for one leading zero byte. A character outside the alphabet is an error.
\<close>

definition b58_alphabet :: string where
  "b58_alphabet = ''123456789ABCDEFGHJKLMNPQRSTUVWXYZabcdefghijkmnopqrstuvwxyz''"

fun index_of :: "'a \<Rightarrow> 'a list \<Rightarrow> nat option" where
  "index_of c [] = None"
| "index_of c (d # ds) = (if c = d then Some 0 else map_option Suc (index_of c ds))"

fun b58_value :: "nat \<Rightarrow> string \<Rightarrow> nat option" where
  "b58_value n [] = Some n"
| "b58_value n (c # cs) =
     (case index_of c b58_alphabet of
        None \<Rightarrow> None
      | Some d \<Rightarrow> b58_value (n * 58 + d) cs)"

function bytes_of_nat :: "nat \<Rightarrow> byte list" where
  "bytes_of_nat n = (if n = 0 then [] else bytes_of_nat (n div 256) @ [of_nat (n mod 256)])"
  by pat_completeness auto
termination
  by (relation "measure id") auto

declare bytes_of_nat.simps [simp del]

function b58_digits :: "nat \<Rightarrow> string" where
  "b58_digits n = (if n = 0 then [] else b58_digits (n div 58) @ [b58_alphabet ! (n mod 58)])"
  by pat_completeness auto
termination
  by (relation "measure id") auto

declare b58_digits.simps [simp del]

definition base58_Decode :: "string \<Rightarrow> byte list option" where
  "base58_Decode s =
     (case b58_value 0 s of
        None \<Rightarrow> None
      | Some n \<Rightarrow> Some (replicate (length (takeWhile (\<lambda>c. c = CHR ''1'') s)) 0 @ bytes_of_nat n))"

definition base58_Encode :: "byte list \<Rightarrow> string" where
  "base58_Encode bs =
     replicate (length (takeWhile (\<lambda>b. b = 0) bs)) (CHR ''1'')
     @ b58_digits (foldl (\<lambda>n b. n * 256 + unat b) 0 bs)"

section \<open>Notions the properties are stated with\<close>

text \<open>
  The identities an instruction sequence mentions, and what the instructions ask for:
  \<open>marked_signer\<close> (\<open>marked_writable\<close>) holds for an identity when some account entry
  of some instruction names it with the signer (writable) flag set.
\<close>

definition mentioned :: "Instruction list \<Rightarrow> PublicKey set" where
  "mentioned instructions =
     (\<Union>i \<in> set instructions. insert (ProgramID i) (PubKey ` set (Instruction.Accounts i)))"

definition marked_signer :: "Instruction list \<Rightarrow> PublicKey \<Rightarrow> bool" where
  "marked_signer instructions k \<longleftrightarrow>
     (\<exists>i \<in> set instructions. \<exists>a \<in> set (Instruction.Accounts i). PubKey a = k \<and> IsSigner a)"

definition marked_writable :: "Instruction list \<Rightarrow> PublicKey \<Rightarrow> bool" where
  "marked_writable instructions k \<longleftrightarrow>
     (\<exists>i \<in> set instructions. \<exists>a \<in> set (Instruction.Accounts i). PubKey a = k \<and> IsWritable a)"

text \<open>The merged flags of an identity in an account map.\<close>

definition isSigner_in :: "(PublicKey \<rightharpoonup> AccountMeta) \<Rightarrow> PublicKey \<Rightarrow> bool" where
  "isSigner_in m k = (case m k of None \<Rightarrow> False | Some a \<Rightarrow> IsSigner a)"

definition isWritable_in :: "(PublicKey \<rightharpoonup> AccountMeta) \<Rightarrow> PublicKey \<Rightarrow> bool" where
  "isWritable_in m k = (case m k of None \<Rightarrow> False | Some a \<Rightarrow> IsWritable a)"

text \<open>
  What a compiled instruction refers to in an account list: the identity of the program,
  the identities of its accounts, and its payload.
\<close>

definition resolved :: "PublicKey list \<Rightarrow> CompiledInstruction \<Rightarrow> PublicKey \<times> PublicKey list \<times> byte list" where
  "resolved accounts ci =
     (accounts ! nat (ProgramIDIndex ci),
      map (\<lambda>idx. accounts ! nat idx) (CompiledInstruction.Accounts ci),
      CompiledInstruction.Data ci)"

definition referred :: "Instruction \<Rightarrow> PublicKey \<times> PublicKey list \<times> byte list" where
  "referred instruction =
     (ProgramID instruction, map PubKey (Instruction.Accounts instruction),
      Instruction.Data instruction)"

text \<open>
  \<open>tier m feePayer s w\<close> holds for the identities of the account map \<open>m\<close>, the fee payer
  apart when one is given, whose merged flags are \<open>s\<close> (signer) and \<open>w\<close> (writable).
\<close>

definition tier :: "(PublicKey \<rightharpoonup> AccountMeta) \<Rightarrow> PublicKey \<Rightarrow> bool \<Rightarrow> bool \<Rightarrow> PublicKey \<Rightarrow> bool" where
  "tier m feePayer s w k \<longleftrightarrow>
     k \<in> dom m \<and> (feePayer = ZeroPublicKey \<or> k \<noteq> feePayer)
     \<and> isSigner_in m k = s \<and> isWritable_in m k = w"

section \<open>The wire format\<close>

text \<open>
  The layout the specification gives for a serialized message (MessageCodec, Serialize):
  three header bytes; the account count as a varint and the 32-byte identities; the bytes
  of the block hash; the instruction count as a varint and, for each instruction, one
  byte of program index, the varint count of account indices and one byte for each, one
  byte of payload length, and the payload. A value written to one byte is written modulo
  256.
\<close>

definition wire_instruction :: "CompiledInstruction \<Rightarrow> byte list" where
  "wire_instruction ci =
     [of_int (ProgramIDIndex ci mod 256)]
     @ uvarint (length (CompiledInstruction.Accounts ci))
     @ map (\<lambda>idx. of_int (idx mod 256)) (CompiledInstruction.Accounts ci)
     @ [of_nat (length (CompiledInstruction.Data ci) mod 256)]
     @ CompiledInstruction.Data ci"

definition wire_message :: "byte list \<Rightarrow> Message \<Rightarrow> byte list" where
  "wire_message blockHash m =
     [NumRequireSignatures (Header m), NumReadonlySignedAccounts (Header m),
      NumReadonlyUnsignedAccounts (Header m)]
     @ uvarint (length (Message.Accounts m)) @ concat (Message.Accounts m)
     @ blockHash
     @ uvarint (length (Instructions m)) @ concat (map wire_instruction (Instructions m))"

text \<open>
  The length of a Go slice is an \<^verbatim>\<open>int\<close>. \<open>counted m\<close> holds for a message none of
  whose counts is zero: it has an account, an instruction, and an account index in every
  instruction.
\<close>

definition fits_int :: "'a list \<Rightarrow> bool" where
  "fits_int xs \<longleftrightarrow> length xs < 2 ^ 63"

definition counted :: "Message \<Rightarrow> bool" where
  "counted m \<longleftrightarrow>
     Message.Accounts m \<noteq> [] \<and> fits_int (Message.Accounts m)
     \<and> Instructions m \<noteq> [] \<and> fits_int (Instructions m)
     \<and> list_all (\<lambda>ci. CompiledInstruction.Accounts ci \<noteq> []
                        \<and> fits_int (CompiledInstruction.Accounts ci)) (Instructions m)"

text \<open>
  \<open>read_back_safe m\<close> holds for a message that \<^verbatim>\<open>MessageDeserialize\<close> reads back from
  its wire format: every value written to a single byte (the header counts, the program
  and account indices, the payload lengths) is below 128, so that the byte read as a
  varint is the value; the keys have 32 bytes, and the counts fit the integer types.
\<close>

definition read_back_safe :: "Message \<Rightarrow> bool" where
  "read_back_safe m \<longleftrightarrow>
     NumRequireSignatures (Header m) < 0x80
     \<and> NumReadonlySignedAccounts (Header m) < 0x80
     \<and> NumReadonlyUnsignedAccounts (Header m) < 0x80
     \<and> length (Message.Accounts m) < 2 ^ 58
     \<and> list_all (\<lambda>k. length k = 32) (Message.Accounts m)
     \<and> fits_int (Instructions m)
     \<and> list_all (\<lambda>ci. 0 \<le> ProgramIDIndex ci \<and> ProgramIDIndex ci < 128
                    \<and> list_all (\<lambda>idx. 0 \<le> idx \<and> idx < 128) (CompiledInstruction.Accounts ci)
                    \<and> length (CompiledInstruction.Data ci) < 128) (Instructions m)
     \<and> list_all (\<lambda>ci. fits_int (CompiledInstruction.Accounts ci)) (Instructions m)"

section \<open>Values for the examples\<close>

text \<open>
  \<open>key b\<close> is the 32-byte identity whose bytes are all \<open>b\<close>; \<open>key 0\<close> is the zero key,
  whose text form is \<open>zero_hash\<close>, 32 times the character \<open>1\<close>.
\<close>

definition key :: "byte \<Rightarrow> PublicKey" where
  "key b = replicate 32 b"

definition zero_hash :: string where
  "zero_hash = replicate 32 (CHR ''1'')"

section \<open>The example keys\<close>

lemma key_eq [simp]: "key a = key b \<longleftrightarrow> a = b"
  by (simp add: key_def)

lemma key_zero [simp]: "key b = ZeroPublicKey \<longleftrightarrow> b = 0"
  by (simp add: key_def ZeroPublicKey_def)

section \<open>The length-prefix encoder\<close>

lemma low7_take_bit: "(of_nat (unat (x::uint64) mod 128) :: byte) = take_bit 7 (ucast x)"
proof -
  have h: "unat x mod 128 = take_bit 7 (unat x)" by (simp add: take_bit_eq_mod)
  show ?thesis
    unfolding h by (rule bit_word_eqI) (auto simp: bit_simps)
qed

lemma bit_128_byte: "bit (128::byte) n \<longleftrightarrow> n = 7"
proof -
  have e: "(128::byte) = 2 ^ 7" by simp
  show ?thesis unfolding e by (simp only: bit_exp_iff) (auto simp: possible_bit_word)
qed

lemma bit_128_int: "bit (128::int) n \<longleftrightarrow> n = 7"
proof -
  have e: "(128::int) = 2 ^ 7" by simp
  show ?thesis unfolding e by (simp only: bit_exp_iff) (auto simp: possible_bit_def)
qed

lemma continuation_add: "(128 :: byte) + take_bit 7 y = y OR 128"
proof -
  have "(128 :: byte) + take_bit 7 y = 128 OR take_bit 7 y"
    by (rule disjunctive_add_eq_or, rule bit_word_eqI) (auto simp: bit_simps bit_128_byte bit_128_int)
  also have "\<dots> = y OR 128"
    by (rule bit_word_eqI) (auto simp: bit_simps bit_128_byte bit_128_int)
  finally show ?thesis .
qed

lemma continuation_byte: "(ucast (x :: uint64) :: byte) OR 0x80 = of_nat (128 + unat x mod 128)"
  using low7_take_bit[of x] continuation_add[of "ucast x"] by simp

lemma uvarint_length: "n < 128 ^ k \<Longrightarrow> 0 < k \<Longrightarrow> length (uvarint n) \<le> k"
proof (induction k arbitrary: n)
  case 0
  then show ?case by simp
next
  case (Suc k)
  show ?case
  proof (cases "n < 128")
    case True
    then show ?thesis by (simp add: uvarint.simps)
  next
    case False
    then have k: "0 < k" using Suc.prems by (cases k) auto
    have "n div 128 < 128 ^ k"
      using Suc.prems by (simp add: less_mult_imp_div_less mult.commute)
    from Suc.IH[OF this k] False show ?thesis by (simp add: uvarint.simps[of n])
  qed
qed

lemma uvarint_length64: "length (uvarint (unat (x::uint64))) \<le> 10"
proof -
  have "unat x < 2 ^ 64" using unsigned_less[of x, where ?'a = nat] by simp
  then have "unat x < 128 ^ 10" by simp
  then show ?thesis by (rule uvarint_length) simp
qed

lemma uvarint_last: "0 < n \<Longrightarrow> uvarint n \<noteq> [] \<and> last (uvarint n) \<noteq> 0"
proof (induction n rule: uvarint.induct)
  case (1 n)
  show ?case
  proof (cases "n < 128")
    case True
    with 1 show ?thesis by (auto simp add: uvarint.simps word_of_nat_eq_0_iff dvd_def)
  next
    case False
    then have "0 < n div 128" by simp
    with 1 False have "uvarint (n div 128) \<noteq> [] \<and> last (uvarint (n div 128)) \<noteq> 0" by simp
    then show ?thesis using False by (simp add: uvarint.simps[of n])
  qed
qed

lemma store_in_zero_tail:
  "length pre = i \<Longrightarrow> 0 < n \<Longrightarrow> (pre @ replicate n z)[i := v] = (pre @ [v]) @ replicate (n - 1) z"
  by (cases n) (simp_all add: list_update_append)

lemma PutUvarint_buf:
  "length pre = i \<Longrightarrow> length (uvarint (unat x)) \<le> n \<Longrightarrow>
   PutUvarint (pre @ replicate n 0) i x =
     Inr (pre @ uvarint (unat x) @ replicate (n - length (uvarint (unat x))) 0)"
proof (induction x arbitrary: pre i n rule: measure_induct_rule[of unat])
  case (less x)
  show ?case
  proof (cases "x \<ge> 0x80")
    case False
    then have small: "unat x < 128" by (simp add: word_le_nat_alt not_le)
    then have enc: "uvarint (unat x) = [ucast x]" by (simp add: uvarint.simps)
    with less.prems have n: "0 < n" by simp
    show ?thesis
      using False less.prems(1) n
      by (subst PutUvarint.simps) (simp add: enc store_in_zero_tail)
  next
    case True
    then have big: "\<not> unat x < 128" by (simp add: word_le_nat_alt)
    have enc: "uvarint (unat x) = (ucast x OR 0x80) # uvarint (unat (drop_bit 7 x))"
      using big
      by (subst uvarint.simps) (simp add: continuation_byte unat_drop_bit_eq drop_bit_eq_div unat_div)
    have dec: "unat (drop_bit 7 x) < unat x"
      using big by (simp add: unat_drop_bit_eq drop_bit_eq_div unat_div)
    from less.prems enc have n: "0 < n"
      and len: "length (uvarint (unat (drop_bit 7 x))) \<le> n - 1"
      by auto
    have "PutUvarint ((pre @ [ucast x OR 0x80]) @ replicate (n - 1) 0) (i + 1) (drop_bit 7 x) =
       Inr ((pre @ [ucast x OR 0x80]) @ uvarint (unat (drop_bit 7 x)) @
            replicate (n - 1 - length (uvarint (unat (drop_bit 7 x)))) 0)"
      by (rule less.IH[OF dec _ len]) (simp add: less.prems(1))
    then show ?thesis
      using True less.prems(1) n
      by (subst PutUvarint.simps) (simp add: enc store_in_zero_tail)
  qed
qed

lemma trim_zero_tail:
  "ys \<noteq> [] \<Longrightarrow> last ys \<noteq> 0 \<Longrightarrow> trimTrailingZeroByte (ys @ replicate n 0) = Inr ys"
proof (induction n)
  case 0
  then show ?case by (subst trimTrailingZeroByte.simps) simp
next
  case (Suc n)
  have e: "ys @ replicate (Suc n) 0 = (ys @ replicate n 0) @ [0]"
    by (simp add: replicate_append_same)
  have "trimTrailingZeroByte ((ys @ replicate n 0) @ [0]) = trimTrailingZeroByte (ys @ replicate n 0)"
    by (subst trimTrailingZeroByte.simps) (simp del: append_assoc)
  then show ?case using Suc unfolding e by simp
qed

lemma trim_all_zero: "trimTrailingZeroByte (replicate n 0) = Inl Panic"
proof (induction n)
  case 0
  then show ?case by (subst trimTrailingZeroByte.simps) simp
next
  case (Suc n)
  have "replicate (Suc n) (0::byte) = replicate n 0 @ [0]"
    by (simp add: replicate_append_same)
  then show ?case using Suc
    by (subst trimTrailingZeroByte.simps) simp
qed

lemma UintToVarLenBytes_nonzero: "l \<noteq> 0 \<Longrightarrow> UintToVarLenBytes l = Inr (uvarint (unat l))"
proof -
  assume "l \<noteq> 0"
  then have "0 < unat l" by (simp add: unat_gt_0)
  then have l: "uvarint (unat l) \<noteq> [] \<and> last (uvarint (unat l)) \<noteq> 0" by (rule uvarint_last)
  have "PutUvarint ([] @ replicate 10 0) 0 l =
     Inr ([] @ uvarint (unat l) @ replicate (10 - length (uvarint (unat l))) 0)"
    by (rule PutUvarint_buf) (simp_all add: uvarint_length64)
  then show ?thesis using l
    by (simp add: UintToVarLenBytes_def MaxVarintLen64_def trim_zero_tail)
qed

lemma UintToVarLenBytes_zero: "UintToVarLenBytes 0 = Inl Panic"
proof -
  have "PutUvarint (replicate MaxVarintLen64 0) 0 0 = Inr (replicate MaxVarintLen64 0)"
    by (subst PutUvarint.simps) (simp add: MaxVarintLen64_def list_update_same_conv)
  then show ?thesis by (simp add: UintToVarLenBytes_def trim_all_zero)
qed

lemma Serialize_no_accounts: "Message.Accounts m = [] \<Longrightarrow> Serialize dec m = Inl Panic"
  by (simp add: Serialize_def UintToVarLenBytes_zero)

lemma Serialize_no_instructions:
  assumes "Instructions m = []" and "dec (RecentBlockHash m) = Some h"
  shows "Serialize dec m = Inl Panic"
proof (cases "UintToVarLenBytes (of_nat (length (Message.Accounts m)))")
  case (Inl e)
  have "e = Panic"
  proof (cases "(of_nat (length (Message.Accounts m)) :: uint64) = 0")
    case True
    with Inl show ?thesis by (simp add: UintToVarLenBytes_zero)
  next
    case False
    with Inl show ?thesis by (simp add: UintToVarLenBytes_nonzero)
  qed
  with Inl show ?thesis by (simp add: Serialize_def)
next
  case (Inr n)
  with assms show ?thesis by (simp add: Serialize_def UintToVarLenBytes_zero)
qed

text \<open>
  C10 (as amended). \<^verbatim>\<open>UintToVarLenBytes(0)\<close> panics: the trimming loop strips the whole
  zero buffer and indexes the empty slice. For every non-zero input the result is the
  minimal little-endian base-128 encoding; 300 gives the bytes \<open>0xAC, 0x02\<close>.
  \<^verbatim>\<open>Serialize\<close> therefore panics on every message with an empty account list, and on
  every message with an empty instruction list whose block hash text the decoder accepts
  (the account count is encoded before the block hash is decoded, the instruction count
  after it).
\<close>

theorem UintToVarLenBytes_zero_panics:
  "UintToVarLenBytes 0 = Inl Panic
   \<and> (\<forall>l. l \<noteq> 0 \<longrightarrow> UintToVarLenBytes l = Inr (uvarint (unat l)))
   \<and> UintToVarLenBytes 300 = Inr [0xAC, 0x02]
   \<and> (\<forall>dec m. Message.Accounts m = [] \<longrightarrow> Serialize dec m = Inl Panic)
   \<and> (\<forall>dec m. Instructions m = [] \<and> dec (RecentBlockHash m) \<noteq> None
         \<longrightarrow> Serialize dec m = Inl Panic)"
proof -
  have "uvarint 300 = [0xAC, 0x02]"
    by (simp add: uvarint.simps)
  then have "UintToVarLenBytes 300 = Inr [0xAC, 0x02]"
    using UintToVarLenBytes_nonzero[of 300] by simp
  then show ?thesis
    using UintToVarLenBytes_zero UintToVarLenBytes_nonzero Serialize_no_accounts
      Serialize_no_instructions
    by auto
qed

text \<open>
  The theorem at concrete inputs: the count 1 is encoded as the byte 1; a message without
  accounts, and one with an account but no instruction and the block hash of 32 zero
  bytes, make \<^verbatim>\<open>Serialize\<close> panic.
\<close>

theorem UintToVarLenBytes_zero_panics_witness:
  "(1::uint64) \<noteq> 0 \<and> UintToVarLenBytes 1 = Inr [1]
   \<and> Serialize base58_Decode
        \<lparr>Header = \<lparr>NumRequireSignatures = 0, NumReadonlySignedAccounts = 0,
                   NumReadonlyUnsignedAccounts = 0\<rparr>,
         Message.Accounts = [], RecentBlockHash = ''11111111111111111111111111111111'',
         Instructions = []\<rparr> = Inl Panic
   \<and> base58_Decode ''11111111111111111111111111111111'' \<noteq> None
   \<and> Serialize base58_Decode
        \<lparr>Header = \<lparr>NumRequireSignatures = 1, NumReadonlySignedAccounts = 0,
                   NumReadonlyUnsignedAccounts = 0\<rparr>,
         Message.Accounts = [replicate 32 1],
         RecentBlockHash = ''11111111111111111111111111111111'',
         Instructions = []\<rparr> = Inl Panic"
proof -
  have d: "base58_Decode ''11111111111111111111111111111111'' \<noteq> None"
    by code_simp
  have u: "uvarint (unat (1::uint64)) = [1]"
    by (simp add: uvarint.simps)
  show ?thesis
    using UintToVarLenBytes_zero_panics d u by simp
qed

text \<open>
  C10 as stated fails: with an account, no instruction and a block hash text that is not
  base58, \<^verbatim>\<open>Serialize\<close> returns the decoder's error before it reaches the instruction
  count.
\<close>

theorem Serialize_no_instructions_counterexample:
  "Instructions
     \<lparr>Header = \<lparr>NumRequireSignatures = 1, NumReadonlySignedAccounts = 0,
                NumReadonlyUnsignedAccounts = 0\<rparr>,
      Message.Accounts = [replicate 32 1], RecentBlockHash = ''0'',
      Instructions = []\<rparr> = []
   \<and> Serialize base58_Decode
     \<lparr>Header = \<lparr>NumRequireSignatures = 1, NumReadonlySignedAccounts = 0,
                NumReadonlyUnsignedAccounts = 0\<rparr>,
      Message.Accounts = [replicate 32 1], RecentBlockHash = ''0'',
      Instructions = []\<rparr> = Inl Base58Error"
proof -
  have d: "base58_Decode ''0'' = None"
    by code_simp
  have "UintToVarLenBytes 1 = Inr (uvarint (unat (1::uint64)))"
    by (rule UintToVarLenBytes_nonzero) simp
  then show ?thesis
    by (simp add: Serialize_def d)
qed

section \<open>Merging the accounts\<close>

lemma addAccount_dom: "dom (addAccount m a) = insert (PubKey a) (dom m)"
  by (auto simp: addAccount_def split: option.splits)

lemma addAccount_keyed:
  "(\<forall>k v. m k = Some v \<longrightarrow> PubKey v = k) \<Longrightarrow> addAccount m a k = Some v \<Longrightarrow> PubKey v = k"
  by (auto simp: addAccount_def split: option.splits if_splits)

lemma addAccount_signer:
  "isSigner_in (addAccount m a) k \<longleftrightarrow> isSigner_in m k \<or> (PubKey a = k \<and> IsSigner a)"
  by (auto simp: addAccount_def isSigner_in_def split: option.splits)

lemma addAccount_writable:
  "isWritable_in (addAccount m a) k \<longleftrightarrow> isWritable_in m k \<or> (PubKey a = k \<and> IsWritable a)"
  by (auto simp: addAccount_def isWritable_in_def split: option.splits)

lemma foldl_addAccount_dom: "dom (foldl addAccount m as) = dom m \<union> PubKey ` set as"
  by (induction as arbitrary: m) (auto simp: addAccount_dom)

lemma foldl_addAccount_keyed:
  "(\<forall>k v. m k = Some v \<longrightarrow> PubKey v = k) \<Longrightarrow>
   (\<forall>k v. foldl addAccount m as k = Some v \<longrightarrow> PubKey v = k)"
proof (induction as arbitrary: m)
  case Nil
  then show ?case by simp
next
  case (Cons a as)
  have "\<forall>k v. addAccount m a k = Some v \<longrightarrow> PubKey v = k"
    using Cons.prems addAccount_keyed by blast
  from Cons.IH[OF this] show ?case by simp
qed

lemma foldl_addAccount_signer:
  "isSigner_in (foldl addAccount m as) k \<longleftrightarrow>
     isSigner_in m k \<or> (\<exists>a \<in> set as. PubKey a = k \<and> IsSigner a)"
  by (induction as arbitrary: m) (auto simp: addAccount_signer)

lemma foldl_addAccount_writable:
  "isWritable_in (foldl addAccount m as) k \<longleftrightarrow>
     isWritable_in m k \<or> (\<exists>a \<in> set as. PubKey a = k \<and> IsWritable a)"
  by (induction as arbitrary: m) (auto simp: addAccount_writable)

lemma addInstruction_dom:
  "dom (addInstruction m i) = dom m \<union> insert (ProgramID i) (PubKey ` set (Instruction.Accounts i))"
  by (auto simp: addInstruction_def foldl_addAccount_dom split: option.splits)

lemma addInstruction_keyed:
  assumes "\<forall>k v. m k = Some v \<longrightarrow> PubKey v = k"
  shows "\<forall>k v. addInstruction m i k = Some v \<longrightarrow> PubKey v = k"
  unfolding addInstruction_def
  by (rule foldl_addAccount_keyed) (use assms in \<open>auto split: option.splits\<close>)

lemma program_entry_signer:
  "isSigner_in
     (case m p of None \<Rightarrow> m(p \<mapsto> \<lparr>PubKey = p, IsSigner = False, IsWritable = False\<rparr>)
      | Some a \<Rightarrow> m) k
   \<longleftrightarrow> isSigner_in m k"
  by (auto simp: isSigner_in_def split: option.splits)

lemma program_entry_writable:
  "isWritable_in
     (case m p of None \<Rightarrow> m(p \<mapsto> \<lparr>PubKey = p, IsSigner = False, IsWritable = False\<rparr>)
      | Some a \<Rightarrow> m) k
   \<longleftrightarrow> isWritable_in m k"
  by (auto simp: isWritable_in_def split: option.splits)

lemma addInstruction_signer:
  "isSigner_in (addInstruction m i) k \<longleftrightarrow>
     isSigner_in m k \<or> (\<exists>a \<in> set (Instruction.Accounts i). PubKey a = k \<and> IsSigner a)"
  unfolding addInstruction_def foldl_addAccount_signer program_entry_signer ..

lemma addInstruction_writable:
  "isWritable_in (addInstruction m i) k \<longleftrightarrow>
     isWritable_in m k \<or> (\<exists>a \<in> set (Instruction.Accounts i). PubKey a = k \<and> IsWritable a)"
  unfolding addInstruction_def foldl_addAccount_writable program_entry_writable ..

lemma foldl_addInstruction_dom:
  "dom (foldl addInstruction m is) = dom m \<union> mentioned is"
  by (induction "is" arbitrary: m) (auto simp: addInstruction_dom mentioned_def)

lemma foldl_addInstruction_keyed:
  "(\<forall>k v. m k = Some v \<longrightarrow> PubKey v = k) \<Longrightarrow>
   (\<forall>k v. foldl addInstruction m is k = Some v \<longrightarrow> PubKey v = k)"
proof (induction "is" arbitrary: m)
  case Nil
  then show ?case by simp
next
  case (Cons i "is")
  from Cons.IH[OF addInstruction_keyed[OF Cons.prems]] show ?case by simp
qed

lemma foldl_addInstruction_signer:
  "isSigner_in (foldl addInstruction m is) k \<longleftrightarrow> isSigner_in m k \<or> marked_signer is k"
  by (induction "is" arbitrary: m) (auto simp: addInstruction_signer marked_signer_def)

lemma foldl_addInstruction_writable:
  "isWritable_in (foldl addInstruction m is) k \<longleftrightarrow> isWritable_in m k \<or> marked_writable is k"
  by (induction "is" arbitrary: m) (auto simp: addInstruction_writable marked_writable_def)

lemma mergeAccounts_dom: "dom (mergeAccounts is) = mentioned is"
  by (simp add: mergeAccounts_def foldl_addInstruction_dom)

lemma mergeAccounts_keyed: "mergeAccounts is k = Some v \<Longrightarrow> PubKey v = k"
  using foldl_addInstruction_keyed[of Map.empty "is"] by (simp add: mergeAccounts_def)

lemma mergeAccounts_signer: "isSigner_in (mergeAccounts is) k \<longleftrightarrow> marked_signer is k"
  by (simp add: mergeAccounts_def foldl_addInstruction_signer) (simp add: isSigner_in_def)

lemma mergeAccounts_writable: "isWritable_in (mergeAccounts is) k \<longleftrightarrow> marked_writable is k"
  by (simp add: mergeAccounts_def foldl_addInstruction_writable) (simp add: isWritable_in_def)

text \<open>
  C5. The merged entry of an identity carries the logical OR of the flags of all the
  account entries that name it, in every instruction: the account map holds exactly the
  identities the instructions mention, and an identity is a signer (writable) in it
  exactly when some instruction marks it so. A flag once set is never cleared by a later
  entry; a program id adds no flag.
\<close>

theorem mergeAccounts_is_or_of_flags:
  "mergeAccounts instructions k =
     (if k \<in> mentioned instructions
      then Some \<lparr>PubKey = k, IsSigner = marked_signer instructions k,
                 IsWritable = marked_writable instructions k\<rparr>
      else None)"
proof (cases "mergeAccounts instructions k")
  case None
  then have "k \<notin> mentioned instructions"
    using mergeAccounts_dom[of instructions] by auto
  with None show ?thesis by simp
next
  case (Some v)
  then have k: "k \<in> mentioned instructions"
    using mergeAccounts_dom[of instructions] by auto
  have "PubKey v = k"
    using Some by (rule mergeAccounts_keyed)
  moreover have "IsSigner v = marked_signer instructions k"
    using mergeAccounts_signer[of instructions k] Some by (simp add: isSigner_in_def)
  moreover have "IsWritable v = marked_writable instructions k"
    using mergeAccounts_writable[of instructions k] Some by (simp add: isWritable_in_def)
  ultimately have "v = \<lparr>PubKey = k, IsSigner = marked_signer instructions k,
                 IsWritable = marked_writable instructions k\<rparr>"
    by (cases v) simp
  with Some k show ?thesis by simp
qed

text \<open>
  The theorem at a concrete input: the first instruction names the identity \<open>key 1\<close>
  read-only and not signing, the second names it writable, a third names it signing; the
  merged entry is signer and writable.
\<close>

theorem mergeAccounts_is_or_of_flags_witness:
  "mergeAccounts
     [\<lparr>ProgramID = key 3,
       Instruction.Accounts = [\<lparr>PubKey = key 1, IsSigner = False, IsWritable = False\<rparr>],
       Instruction.Data = []\<rparr>,
      \<lparr>ProgramID = key 3,
       Instruction.Accounts = [\<lparr>PubKey = key 1, IsSigner = False, IsWritable = True\<rparr>],
       Instruction.Data = []\<rparr>,
      \<lparr>ProgramID = key 3,
       Instruction.Accounts = [\<lparr>PubKey = key 1, IsSigner = True, IsWritable = False\<rparr>],
       Instruction.Data = []\<rparr>] (key 1)
   = Some \<lparr>PubKey = key 1, IsSigner = True, IsWritable = True\<rparr>"
  by (simp add: mergeAccounts_is_or_of_flags mentioned_def marked_signer_def marked_writable_def)

section \<open>Ordering the accounts\<close>

lemma foldl_classify:
  "foldl classify t vs =
     \<lparr>writableSignedAccount =
        writableSignedAccount t @ map PubKey (filter (\<lambda>a. IsSigner a \<and> IsWritable a) vs),
      readOnlySignedAccount =
        readOnlySignedAccount t @ map PubKey (filter (\<lambda>a. IsSigner a \<and> \<not> IsWritable a) vs),
      writableUnsignedAccount =
        writableUnsignedAccount t @ map PubKey (filter (\<lambda>a. \<not> IsSigner a \<and> IsWritable a) vs),
      readOnlyUnsignedAccount =
        readOnlyUnsignedAccount t @ map PubKey (filter (\<lambda>a. \<not> IsSigner a \<and> \<not> IsWritable a) vs)\<rparr>"
  by (induction vs arbitrary: t) (auto simp: classify_def)

lemma foldl_classify_skip:
  "foldl (\<lambda>t account. if feePayer = PubKey account then t else classify t account) t vs =
     foldl classify t (filter (\<lambda>a. PubKey a \<noteq> feePayer) vs)"
  by (induction vs arbitrary: t) auto

lemma range_values_filter:
  assumes "set ks \<subseteq> dom m" and "\<forall>k v. m k = Some v \<longrightarrow> PubKey v = k"
  shows "map PubKey (filter P (range_values m ks)) = filter (\<lambda>k. \<exists>v. m k = Some v \<and> P v) ks"
  using assms
  by (induction ks) (auto simp: range_values_def map_filter_simps split: option.splits)

lemma classifyAccounts_tiers:
  assumes sub: "set ks \<subseteq> dom m" and keyed: "\<forall>k v. m k = Some v \<longrightarrow> PubKey v = k"
  shows "classifyAccounts feePayer (range_values m ks) =
     \<lparr>writableSignedAccount =
        (if feePayer \<noteq> ZeroPublicKey then [feePayer] else []) @ filter (tier m feePayer True True) ks,
      readOnlySignedAccount = filter (tier m feePayer True False) ks,
      writableUnsignedAccount = filter (tier m feePayer False True) ks,
      readOnlyUnsignedAccount = filter (tier m feePayer False False) ks\<rparr>"
proof -
  have t: "filter (\<lambda>k. \<exists>v. m k = Some v \<and> (feePayer = ZeroPublicKey \<or> PubKey v \<noteq> feePayer)
              \<and> IsSigner v = s \<and> IsWritable v = w) ks
           = filter (tier m feePayer s w) ks" for s w
    using keyed by (intro filter_cong) (auto simp: tier_def isSigner_in_def isWritable_in_def)
  show ?thesis
  proof (cases "feePayer = ZeroPublicKey")
    case True
    then show ?thesis
      using t[of True True] t[of True False] t[of False True] t[of False False]
      by (simp add: classifyAccounts_def foldl_classify no_tiers_def
          range_values_filter[OF sub keyed])
  next
    case False
    then show ?thesis
      using t[of True True] t[of True False] t[of False True] t[of False False]
      by (simp add: classifyAccounts_def foldl_classify foldl_classify_skip no_tiers_def
          range_values_filter[OF sub keyed] conj_commute conj_left_commute)
  qed
qed

lemma index_fold_absent:
  "k \<notin> set xs \<Longrightarrow>
   foldl (\<lambda>m (idx, publicKey). m(publicKey \<mapsto> int idx)) m0 (enumerate n xs) k = m0 k"
  by (induction xs arbitrary: m0 n) auto

lemma index_fold_present:
  "k \<in> set xs \<Longrightarrow>
   \<exists>i. foldl (\<lambda>m (idx, publicKey). m(publicKey \<mapsto> int idx)) m0 (enumerate n xs) k = Some (int i)
       \<and> n \<le> i \<and> i < n + length xs \<and> xs ! (i - n) = k"
proof (induction xs arbitrary: m0 n)
  case Nil
  then show ?case by simp
next
  case (Cons x xs)
  let ?F = "\<lambda>m (idx, publicKey). m(publicKey \<mapsto> int idx)"
  have step: "foldl ?F m0 (enumerate n (x # xs)) = foldl ?F (m0(x \<mapsto> int n)) (enumerate (Suc n) xs)"
    by simp
  show ?case
  proof (cases "k \<in> set xs")
    case True
    from Cons.IH[OF True, of "m0(x \<mapsto> int n)" "Suc n"]
    obtain i where i: "foldl ?F (m0(x \<mapsto> int n)) (enumerate (Suc n) xs) k = Some (int i)"
      "Suc n \<le> i" "i < Suc n + length xs" "xs ! (i - Suc n) = k"
      by blast
    have "foldl ?F m0 (enumerate n (x # xs)) k = Some (int i)"
      unfolding step by (rule i(1))
    moreover have "n \<le> i" and "i < n + length (x # xs)"
      using i(2,3) by simp_all
    moreover have "(x # xs) ! (i - n) = k"
      using i(2,4) by (simp add: nth_Cons')
    ultimately show ?thesis by blast
  next
    case False
    with Cons.prems have kx: "k = x" by simp
    have a: "foldl ?F (m0(x \<mapsto> int n)) (enumerate (Suc n) xs) k = (m0(x \<mapsto> int n)) k"
      using False by (rule index_fold_absent)
    have b: "(m0(x \<mapsto> int n)) k = Some (int n)"
      using kx by simp
    have "foldl ?F m0 (enumerate n (x # xs)) k = Some (int n)"
      unfolding step using a b by (rule trans)
    moreover have "(x # xs) ! (n - n) = k"
      using kx by simp
    moreover have "n \<le> n" and "n < n + length (x # xs)"
      by simp_all
    ultimately show ?thesis by blast
  qed
qed

lemma lookupIdx_present:
  assumes "k \<in> set xs"
  shows "\<exists>i < length xs. lookupIdx (publicKeyToIdx xs) k = int i \<and> xs ! i = k"
  using index_fold_present[OF assms, of Map.empty 0]
  by (auto simp: lookupIdx_def publicKeyToIdx_def)

lemma tier_count:
  assumes "iteration_order m ks"
  shows "length (filter (tier m feePayer s w) ks) = card {k. tier m feePayer s w k}"
proof -
  have "{k. tier m feePayer s w k} \<inter> set ks = {k. tier m feePayer s w k}"
    using assms by (auto simp: iteration_order_def tier_def)
  then show ?thesis
    using assms distinct_length_filter[of ks "tier m feePayer s w"]
    by (simp add: iteration_order_def)
qed

lemma NewMessage_Accounts:
  assumes "iteration_order (mergeAccounts is) ks"
  shows "Message.Accounts (NewMessage ks feePayer is h) =
     (if feePayer \<noteq> ZeroPublicKey then [feePayer] else [])
     @ filter (tier (mergeAccounts is) feePayer True True) ks
     @ filter (tier (mergeAccounts is) feePayer True False) ks
     @ filter (tier (mergeAccounts is) feePayer False True) ks
     @ filter (tier (mergeAccounts is) feePayer False False) ks"
proof -
  have sub: "set ks \<subseteq> dom (mergeAccounts is)"
    using assms by (simp add: iteration_order_def)
  have keyed: "\<forall>k v. mergeAccounts is k = Some v \<longrightarrow> PubKey v = k"
    using mergeAccounts_keyed by blast
  show ?thesis
    by (simp add: NewMessage_def Let_def classifyAccounts_tiers[OF sub keyed])
qed

lemma NewMessage_Header:
  assumes "iteration_order (mergeAccounts is) ks"
  shows "Header (NewMessage ks feePayer is h) =
     \<lparr>NumRequireSignatures =
        of_nat ((if feePayer \<noteq> ZeroPublicKey then 1 else 0)
                + card {k. tier (mergeAccounts is) feePayer True True k}
                + card {k. tier (mergeAccounts is) feePayer True False k}),
      NumReadonlySignedAccounts = of_nat (card {k. tier (mergeAccounts is) feePayer True False k}),
      NumReadonlyUnsignedAccounts =
        of_nat (card {k. tier (mergeAccounts is) feePayer False False k})\<rparr>"
proof -
  have sub: "set ks \<subseteq> dom (mergeAccounts is)"
    using assms by (simp add: iteration_order_def)
  have keyed: "\<forall>k v. mergeAccounts is k = Some v \<longrightarrow> PubKey v = k"
    using mergeAccounts_keyed by blast
  show ?thesis
    by (simp add: NewMessage_def Let_def classifyAccounts_tiers[OF sub keyed]
        tier_count[OF assms])
qed

lemma NewMessage_Instructions:
  "Instructions (NewMessage ks feePayer is h) =
     map (compileInstruction (publicKeyToIdx (Message.Accounts (NewMessage ks feePayer is h)))) is"
  by (simp add: NewMessage_def Let_def)

lemma NewMessage_holds_mentioned:
  assumes "iteration_order (mergeAccounts is) ks"
  shows "mentioned is \<subseteq> set (Message.Accounts (NewMessage ks feePayer is h))"
proof
  fix k
  assume "k \<in> mentioned is"
  then have k: "k \<in> set ks" "k \<in> dom (mergeAccounts is)"
    using assms by (simp_all add: iteration_order_def mergeAccounts_dom)
  show "k \<in> set (Message.Accounts (NewMessage ks feePayer is h))"
  proof (cases "feePayer \<noteq> ZeroPublicKey \<and> k = feePayer")
    case True
    then show ?thesis by (simp add: NewMessage_Accounts[OF assms])
  next
    case False
    then have "tier (mergeAccounts is) feePayer (isSigner_in (mergeAccounts is) k)
                 (isWritable_in (mergeAccounts is) k) k"
      using k by (auto simp: tier_def)
    then show ?thesis
      using k(1)
      by (cases "isSigner_in (mergeAccounts is) k"; cases "isWritable_in (mergeAccounts is) k")
         (simp_all add: NewMessage_Accounts[OF assms])
  qed
qed

lemma compileInstruction_resolved:
  assumes "ProgramID i \<in> set accounts" and "PubKey ` set (Instruction.Accounts i) \<subseteq> set accounts"
  shows "resolved accounts (compileInstruction (publicKeyToIdx accounts) i) = referred i"
proof -
  have r: "accounts ! nat (lookupIdx (publicKeyToIdx accounts) k) = k" if "k \<in> set accounts" for k
    using lookupIdx_present[OF that] by auto
  show ?thesis
    using assms by (auto simp: resolved_def referred_def compileInstruction_def r)
qed

lemma compileInstruction_bounds:
  assumes "ProgramID i \<in> set accounts" and "PubKey ` set (Instruction.Accounts i) \<subseteq> set accounts"
  shows "0 \<le> ProgramIDIndex (compileInstruction (publicKeyToIdx accounts) i)
       \<and> ProgramIDIndex (compileInstruction (publicKeyToIdx accounts) i) < int (length accounts)
       \<and> (\<forall>idx \<in> set (CompiledInstruction.Accounts (compileInstruction (publicKeyToIdx accounts) i)).
            0 \<le> idx \<and> idx < int (length accounts))"
proof -
  have r: "0 \<le> lookupIdx (publicKeyToIdx accounts) k
         \<and> lookupIdx (publicKeyToIdx accounts) k < int (length accounts)"
    if "k \<in> set accounts" for k
    using lookupIdx_present[OF that] by auto
  show ?thesis
    using assms by (auto simp: compileInstruction_def r)
qed

lemma mentioned_instruction:
  "i \<in> set is \<Longrightarrow> ProgramID i \<in> mentioned is \<and> PubKey ` set (Instruction.Accounts i) \<subseteq> mentioned is"
  by (auto simp: mentioned_def)

lemma iteration_order_merge:
  "iteration_order (mergeAccounts is) ks \<longleftrightarrow> distinct ks \<and> set ks = mentioned is"
  by (simp add: iteration_order_def mergeAccounts_dom)

text \<open>
  C4. When a fee payer is given (it is not the zero key), it is the first account of the
  message, whatever order the range loop takes and whatever the instructions say about
  it. It is counted once as a signer that is not read-only: the signature count is one
  more than the number of the other identities that are signers, and the count of
  read-only signers is taken among the other identities only (counts as \<^verbatim>\<open>uint8\<close>).
\<close>

theorem fee_payer_first:
  assumes "feePayer \<noteq> ZeroPublicKey"
    and "iteration_order (mergeAccounts instructions) ks"
  shows "Message.Accounts (NewMessage ks feePayer instructions h) ! 0 = feePayer
    \<and> NumRequireSignatures (Header (NewMessage ks feePayer instructions h)) =
        of_nat (1 + card {k. tier (mergeAccounts instructions) feePayer True True k}
                  + card {k. tier (mergeAccounts instructions) feePayer True False k})
    \<and> NumReadonlySignedAccounts (Header (NewMessage ks feePayer instructions h)) =
        of_nat (card {k. tier (mergeAccounts instructions) feePayer True False k})
    \<and> \<not> tier (mergeAccounts instructions) feePayer True True feePayer
    \<and> \<not> tier (mergeAccounts instructions) feePayer True False feePayer"
  using assms(1)
  by (simp add: NewMessage_Accounts[OF assms(2)] NewMessage_Header[OF assms(2)] tier_def)

text \<open>
  The theorem at a concrete input: the fee payer \<open>key 1\<close> is named by no instruction; the
  only instruction has the program \<open>key 3\<close> and the writable account \<open>key 2\<close>.
\<close>

theorem fee_payer_first_witness:
  "key 1 \<noteq> ZeroPublicKey
   \<and> iteration_order
        (mergeAccounts [\<lparr>ProgramID = key 3,
           Instruction.Accounts = [\<lparr>PubKey = key 2, IsSigner = False, IsWritable = True\<rparr>],
           Instruction.Data = [9]\<rparr>]) [key 3, key 2]
   \<and> Message.Accounts (NewMessage [key 3, key 2] (key 1)
        [\<lparr>ProgramID = key 3,
          Instruction.Accounts = [\<lparr>PubKey = key 2, IsSigner = False, IsWritable = True\<rparr>],
          Instruction.Data = [9]\<rparr>] zero_hash) ! 0 = key 1"
proof -
  have h1: "key 1 \<noteq> ZeroPublicKey"
    by simp
  have h2: "iteration_order
        (mergeAccounts [\<lparr>ProgramID = key 3,
           Instruction.Accounts = [\<lparr>PubKey = key 2, IsSigner = False, IsWritable = True\<rparr>],
           Instruction.Data = [9]\<rparr>]) [key 3, key 2]"
    by (simp add: iteration_order_merge mentioned_def)
  from fee_payer_first[OF h1 h2] h1 h2 show ?thesis
    by blast
qed

text \<open>
  C6 (as amended). The header counts are the sizes of the tiers, as \<^verbatim>\<open>uint8\<close> (modulo
  256). Without a fee payer the tiers are taken over all the merged identities. With a
  fee payer they are taken over the merged identities other than the fee payer, and the
  fee payer is counted once more in the signature count, whatever its merged flags. The
  account list is the fee payer (if any), then the writable signers, the read-only
  signers, the writable non-signers and the read-only non-signers, each identity once.
\<close>

theorem tier_arithmetic:
  assumes "iteration_order (mergeAccounts instructions) ks"
  shows "NumRequireSignatures (Header (NewMessage ks feePayer instructions h)) =
        of_nat ((if feePayer \<noteq> ZeroPublicKey then 1 else 0)
                + card {k. tier (mergeAccounts instructions) feePayer True True k}
                + card {k. tier (mergeAccounts instructions) feePayer True False k})
    \<and> NumReadonlySignedAccounts (Header (NewMessage ks feePayer instructions h)) =
        of_nat (card {k. tier (mergeAccounts instructions) feePayer True False k})
    \<and> NumReadonlyUnsignedAccounts (Header (NewMessage ks feePayer instructions h)) =
        of_nat (card {k. tier (mergeAccounts instructions) feePayer False False k})
    \<and> (\<exists>ws ros wu rou.
          Message.Accounts (NewMessage ks feePayer instructions h) =
            (if feePayer \<noteq> ZeroPublicKey then [feePayer] else []) @ ws @ ros @ wu @ rou
          \<and> distinct ws \<and> set ws = {k. tier (mergeAccounts instructions) feePayer True True k}
          \<and> distinct ros \<and> set ros = {k. tier (mergeAccounts instructions) feePayer True False k}
          \<and> distinct wu \<and> set wu = {k. tier (mergeAccounts instructions) feePayer False True k}
          \<and> distinct rou \<and> set rou = {k. tier (mergeAccounts instructions) feePayer False False k})"
proof -
  let ?m = "mergeAccounts instructions"
  have d: "distinct (filter (tier ?m feePayer s w) ks)" for s w
    using assms by (simp add: iteration_order_def)
  have s: "set (filter (tier ?m feePayer s w) ks) = {k. tier ?m feePayer s w k}" for s w
    using assms by (auto simp: iteration_order_def tier_def)
  have "\<exists>ws ros wu rou.
          Message.Accounts (NewMessage ks feePayer instructions h) =
            (if feePayer \<noteq> ZeroPublicKey then [feePayer] else []) @ ws @ ros @ wu @ rou
          \<and> distinct ws \<and> set ws = {k. tier ?m feePayer True True k}
          \<and> distinct ros \<and> set ros = {k. tier ?m feePayer True False k}
          \<and> distinct wu \<and> set wu = {k. tier ?m feePayer False True k}
          \<and> distinct rou \<and> set rou = {k. tier ?m feePayer False False k}"
    using NewMessage_Accounts[OF assms, of feePayer h] d s by blast
  then show ?thesis
    by (simp add: NewMessage_Header[OF assms])
qed

text \<open>
  The theorem at a concrete input: the fee payer \<open>key 1\<close> is named by no instruction; the
  only instruction has the program \<open>key 3\<close> and the writable account \<open>key 2\<close>.
\<close>

theorem tier_arithmetic_witness:
  "iteration_order
     (mergeAccounts [\<lparr>ProgramID = key 3,
        Instruction.Accounts = [\<lparr>PubKey = key 2, IsSigner = False, IsWritable = True\<rparr>],
        Instruction.Data = [9]\<rparr>]) [key 3, key 2]
   \<and> NumReadonlyUnsignedAccounts (Header (NewMessage [key 3, key 2] (key 1)
        [\<lparr>ProgramID = key 3,
          Instruction.Accounts = [\<lparr>PubKey = key 2, IsSigner = False, IsWritable = True\<rparr>],
          Instruction.Data = [9]\<rparr>] zero_hash)) =
       of_nat (card {k. tier (mergeAccounts [\<lparr>ProgramID = key 3,
          Instruction.Accounts = [\<lparr>PubKey = key 2, IsSigner = False, IsWritable = True\<rparr>],
          Instruction.Data = [9]\<rparr>]) (key 1) False False k})"
proof -
  have h: "iteration_order
        (mergeAccounts [\<lparr>ProgramID = key 3,
           Instruction.Accounts = [\<lparr>PubKey = key 2, IsSigner = False, IsWritable = True\<rparr>],
           Instruction.Data = [9]\<rparr>]) [key 3, key 2]"
    by (simp add: iteration_order_merge mentioned_def)
  from tier_arithmetic[OF h, of "key 1" zero_hash] h show ?thesis
    by blast
qed

text \<open>
  C6 as stated fails: with the fee payer \<open>key 1\<close>, which no instruction names, and one
  instruction that marks no signer, no merged identity is a signer, and the header asks
  for one signature.
\<close>

theorem tier_arithmetic_counterexample:
  "iteration_order
     (mergeAccounts [\<lparr>ProgramID = key 3,
        Instruction.Accounts = [\<lparr>PubKey = key 2, IsSigner = False, IsWritable = True\<rparr>],
        Instruction.Data = [9]\<rparr>]) [key 3, key 2]
   \<and> card {k. isSigner_in (mergeAccounts [\<lparr>ProgramID = key 3,
        Instruction.Accounts = [\<lparr>PubKey = key 2, IsSigner = False, IsWritable = True\<rparr>],
        Instruction.Data = [9]\<rparr>]) k} = 0
   \<and> NumRequireSignatures (Header (NewMessage [key 3, key 2] (key 1)
        [\<lparr>ProgramID = key 3,
          Instruction.Accounts = [\<lparr>PubKey = key 2, IsSigner = False, IsWritable = True\<rparr>],
          Instruction.Data = [9]\<rparr>] zero_hash)) = 1"
proof -
  let ?is = "[\<lparr>ProgramID = key 3,
        Instruction.Accounts = [\<lparr>PubKey = key 2, IsSigner = False, IsWritable = True\<rparr>],
        Instruction.Data = [9]\<rparr>]"
  have h: "iteration_order (mergeAccounts ?is) [key 3, key 2]"
    by (simp add: iteration_order_merge mentioned_def)
  have s: "{k. isSigner_in (mergeAccounts ?is) k} = {}"
    by (simp add: mergeAccounts_signer marked_signer_def)
  have n: "NumRequireSignatures (Header (NewMessage [key 3, key 2] (key 1) ?is zero_hash)) = 1"
    by code_simp
  from h s n show ?thesis by simp
qed

text \<open>
  C8. Every program index and every account index of every compiled instruction is a
  position of the message's account list.
\<close>

theorem indices_in_range:
  assumes "iteration_order (mergeAccounts instructions) ks"
  shows "\<forall>ci \<in> set (Instructions (NewMessage ks feePayer instructions h)).
           0 \<le> ProgramIDIndex ci
           \<and> ProgramIDIndex ci < int (length (Message.Accounts (NewMessage ks feePayer instructions h)))
           \<and> (\<forall>idx \<in> set (CompiledInstruction.Accounts ci).
                 0 \<le> idx
                 \<and> idx < int (length (Message.Accounts (NewMessage ks feePayer instructions h))))"
proof
  fix ci
  assume "ci \<in> set (Instructions (NewMessage ks feePayer instructions h))"
  then obtain i where i: "i \<in> set instructions"
    and ci: "ci = compileInstruction
                (publicKeyToIdx (Message.Accounts (NewMessage ks feePayer instructions h))) i"
    by (auto simp: NewMessage_Instructions)
  have "ProgramID i \<in> set (Message.Accounts (NewMessage ks feePayer instructions h))"
    and "PubKey ` set (Instruction.Accounts i)
           \<subseteq> set (Message.Accounts (NewMessage ks feePayer instructions h))"
    using mentioned_instruction[OF i] NewMessage_holds_mentioned[OF assms, of feePayer h]
    by blast+
  then show "0 \<le> ProgramIDIndex ci
           \<and> ProgramIDIndex ci < int (length (Message.Accounts (NewMessage ks feePayer instructions h)))
           \<and> (\<forall>idx \<in> set (CompiledInstruction.Accounts ci).
                 0 \<le> idx
                 \<and> idx < int (length (Message.Accounts (NewMessage ks feePayer instructions h))))"
    unfolding ci by (rule compileInstruction_bounds)
qed

text \<open>
  The theorem at a concrete input, the scenario of the specification: one instruction
  with the program \<open>key 3\<close>, the signing writable account \<open>key 1\<close> and the writable
  account \<open>key 2\<close>; the fee payer is \<open>key 1\<close>. The compiled instruction has the
  program index 2 and the account indices 0 and 1, all below the three accounts.
\<close>

theorem indices_in_range_witness:
  "iteration_order
     (mergeAccounts [\<lparr>ProgramID = key 3,
        Instruction.Accounts = [\<lparr>PubKey = key 1, IsSigner = True, IsWritable = True\<rparr>,
                                \<lparr>PubKey = key 2, IsSigner = False, IsWritable = True\<rparr>],
        Instruction.Data = [9]\<rparr>]) [key 3, key 1, key 2]
   \<and> Instructions (NewMessage [key 3, key 1, key 2] (key 1)
        [\<lparr>ProgramID = key 3,
          Instruction.Accounts = [\<lparr>PubKey = key 1, IsSigner = True, IsWritable = True\<rparr>,
                                  \<lparr>PubKey = key 2, IsSigner = False, IsWritable = True\<rparr>],
          Instruction.Data = [9]\<rparr>] zero_hash)
       = [\<lparr>ProgramIDIndex = 2, CompiledInstruction.Accounts = [0, 1],
           CompiledInstruction.Data = [9]\<rparr>]
   \<and> ProgramIDIndex (hd (Instructions (NewMessage [key 3, key 1, key 2] (key 1)
        [\<lparr>ProgramID = key 3,
          Instruction.Accounts = [\<lparr>PubKey = key 1, IsSigner = True, IsWritable = True\<rparr>,
                                  \<lparr>PubKey = key 2, IsSigner = False, IsWritable = True\<rparr>],
          Instruction.Data = [9]\<rparr>] zero_hash)))
       < int (length (Message.Accounts (NewMessage [key 3, key 1, key 2] (key 1)
        [\<lparr>ProgramID = key 3,
          Instruction.Accounts = [\<lparr>PubKey = key 1, IsSigner = True, IsWritable = True\<rparr>,
                                  \<lparr>PubKey = key 2, IsSigner = False, IsWritable = True\<rparr>],
          Instruction.Data = [9]\<rparr>] zero_hash)))"
proof -
  let ?is = "[\<lparr>ProgramID = key 3,
        Instruction.Accounts = [\<lparr>PubKey = key 1, IsSigner = True, IsWritable = True\<rparr>,
                                \<lparr>PubKey = key 2, IsSigner = False, IsWritable = True\<rparr>],
        Instruction.Data = [9]\<rparr>]"
  have h: "iteration_order (mergeAccounts ?is) [key 3, key 1, key 2]"
    by (auto simp: iteration_order_merge mentioned_def)
  have e: "Instructions (NewMessage [key 3, key 1, key 2] (key 1) ?is zero_hash)
       = [\<lparr>ProgramIDIndex = 2, CompiledInstruction.Accounts = [0, 1],
           CompiledInstruction.Data = [9]\<rparr>]"
    by code_simp
  from indices_in_range[OF h, of "key 1" zero_hash] h e show ?thesis
    by simp
qed

lemma NewMessage_resolved:
  assumes "iteration_order (mergeAccounts is) ks"
  shows "map (resolved (Message.Accounts (NewMessage ks feePayer is h)))
           (Instructions (NewMessage ks feePayer is h)) = map referred is"
proof -
  have "resolved (Message.Accounts (NewMessage ks feePayer is h))
          (compileInstruction (publicKeyToIdx (Message.Accounts (NewMessage ks feePayer is h))) i)
        = referred i" if "i \<in> set is" for i
    using mentioned_instruction[OF that] NewMessage_holds_mentioned[OF assms, of feePayer h]
    by (intro compileInstruction_resolved) blast+
  then show ?thesis
    by (simp add: NewMessage_Instructions)
qed

lemma NewMessage_Accounts_mset:
  assumes "iteration_order (mergeAccounts is) ks"
  shows "mset (Message.Accounts (NewMessage ks feePayer is h)) =
     mset (if feePayer \<noteq> ZeroPublicKey then [feePayer] else [])
     + filter_mset (tier (mergeAccounts is) feePayer True True) (mset_set (mentioned is))
     + filter_mset (tier (mergeAccounts is) feePayer True False) (mset_set (mentioned is))
     + filter_mset (tier (mergeAccounts is) feePayer False True) (mset_set (mentioned is))
     + filter_mset (tier (mergeAccounts is) feePayer False False) (mset_set (mentioned is))"
proof -
  have "mset ks = mset_set (mentioned is)"
    using assms by (simp add: iteration_order_merge mset_set_set[symmetric])
  then have f: "mset (filter P ks) = filter_mset P (mset_set (mentioned is))" for P
    by (simp only: mset_filter)
  show ?thesis
    by (simp add: NewMessage_Accounts[OF assms] f del: mset_filter)
qed

text \<open>
  C1 (as amended). \<open>NewMessage ks\<close> is a function of its input and of the order \<open>ks\<close>
  in which the range loop visits the account map. Two runs on the same input, whatever
  their orders, give the same header, the same block hash text, the same accounts up to
  their order in the list, and compiled instructions that refer to the same identities
  with the same payloads.
\<close>

theorem order_independent_parts:
  assumes "iteration_order (mergeAccounts instructions) ks"
    and "iteration_order (mergeAccounts instructions) ks'"
  shows "Header (NewMessage ks feePayer instructions h) = Header (NewMessage ks' feePayer instructions h)
    \<and> RecentBlockHash (NewMessage ks feePayer instructions h)
        = RecentBlockHash (NewMessage ks' feePayer instructions h)
    \<and> mset (Message.Accounts (NewMessage ks feePayer instructions h))
        = mset (Message.Accounts (NewMessage ks' feePayer instructions h))
    \<and> map (resolved (Message.Accounts (NewMessage ks feePayer instructions h)))
          (Instructions (NewMessage ks feePayer instructions h))
        = map referred instructions
    \<and> map (resolved (Message.Accounts (NewMessage ks' feePayer instructions h)))
          (Instructions (NewMessage ks' feePayer instructions h))
        = map referred instructions"
proof -
  have "RecentBlockHash (NewMessage ks feePayer instructions h)
        = RecentBlockHash (NewMessage ks' feePayer instructions h)"
    by (simp add: NewMessage_def Let_def)
  then show ?thesis
    using NewMessage_Header[OF assms(1), of feePayer h] NewMessage_Header[OF assms(2), of feePayer h]
      NewMessage_Accounts_mset[OF assms(1), of feePayer h]
      NewMessage_Accounts_mset[OF assms(2), of feePayer h]
      NewMessage_resolved[OF assms(1), of feePayer h] NewMessage_resolved[OF assms(2), of feePayer h]
    by simp
qed

text \<open>
  The theorem at a concrete input: one instruction with the program \<open>key 3\<close>, the signing
  account \<open>key 1\<close> and the two writable accounts \<open>key 2\<close> and \<open>key 4\<close>; the fee payer
  is \<open>key 1\<close>. The two orders differ in the writable accounts.
\<close>

theorem order_independent_parts_witness:
  "iteration_order
     (mergeAccounts [\<lparr>ProgramID = key 3,
        Instruction.Accounts = [\<lparr>PubKey = key 1, IsSigner = True, IsWritable = True\<rparr>,
                                \<lparr>PubKey = key 2, IsSigner = False, IsWritable = True\<rparr>,
                                \<lparr>PubKey = key 4, IsSigner = False, IsWritable = True\<rparr>],
        Instruction.Data = [9]\<rparr>]) [key 3, key 1, key 2, key 4]
   \<and> iteration_order
     (mergeAccounts [\<lparr>ProgramID = key 3,
        Instruction.Accounts = [\<lparr>PubKey = key 1, IsSigner = True, IsWritable = True\<rparr>,
                                \<lparr>PubKey = key 2, IsSigner = False, IsWritable = True\<rparr>,
                                \<lparr>PubKey = key 4, IsSigner = False, IsWritable = True\<rparr>],
        Instruction.Data = [9]\<rparr>]) [key 3, key 1, key 4, key 2]
   \<and> Header (NewMessage [key 3, key 1, key 2, key 4] (key 1)
        [\<lparr>ProgramID = key 3,
          Instruction.Accounts = [\<lparr>PubKey = key 1, IsSigner = True, IsWritable = True\<rparr>,
                                  \<lparr>PubKey = key 2, IsSigner = False, IsWritable = True\<rparr>,
                                  \<lparr>PubKey = key 4, IsSigner = False, IsWritable = True\<rparr>],
          Instruction.Data = [9]\<rparr>] zero_hash)
     = Header (NewMessage [key 3, key 1, key 4, key 2] (key 1)
        [\<lparr>ProgramID = key 3,
          Instruction.Accounts = [\<lparr>PubKey = key 1, IsSigner = True, IsWritable = True\<rparr>,
                                  \<lparr>PubKey = key 2, IsSigner = False, IsWritable = True\<rparr>,
                                  \<lparr>PubKey = key 4, IsSigner = False, IsWritable = True\<rparr>],
          Instruction.Data = [9]\<rparr>] zero_hash)
   \<and> mset (Message.Accounts (NewMessage [key 3, key 1, key 2, key 4] (key 1)
        [\<lparr>ProgramID = key 3,
          Instruction.Accounts = [\<lparr>PubKey = key 1, IsSigner = True, IsWritable = True\<rparr>,
                                  \<lparr>PubKey = key 2, IsSigner = False, IsWritable = True\<rparr>,
                                  \<lparr>PubKey = key 4, IsSigner = False, IsWritable = True\<rparr>],
          Instruction.Data = [9]\<rparr>] zero_hash))
     = mset (Message.Accounts (NewMessage [key 3, key 1, key 4, key 2] (key 1)
        [\<lparr>ProgramID = key 3,
          Instruction.Accounts = [\<lparr>PubKey = key 1, IsSigner = True, IsWritable = True\<rparr>,
                                  \<lparr>PubKey = key 2, IsSigner = False, IsWritable = True\<rparr>,
                                  \<lparr>PubKey = key 4, IsSigner = False, IsWritable = True\<rparr>],
          Instruction.Data = [9]\<rparr>] zero_hash))"
proof -
  let ?is = "[\<lparr>ProgramID = key 3,
        Instruction.Accounts = [\<lparr>PubKey = key 1, IsSigner = True, IsWritable = True\<rparr>,
                                \<lparr>PubKey = key 2, IsSigner = False, IsWritable = True\<rparr>,
                                \<lparr>PubKey = key 4, IsSigner = False, IsWritable = True\<rparr>],
        Instruction.Data = [9]\<rparr>]"
  have h1: "iteration_order (mergeAccounts ?is) [key 3, key 1, key 2, key 4]"
    by (auto simp: iteration_order_merge mentioned_def)
  have h2: "iteration_order (mergeAccounts ?is) [key 3, key 1, key 4, key 2]"
    by (auto simp: iteration_order_merge mentioned_def)
  from order_independent_parts[OF h1 h2, of "key 1" zero_hash] h1 h2 show ?thesis
    by blast
qed

text \<open>
  C1 as stated fails: on that input the two orders of the range loop give two account
  lists, \<open>key 1, key 2, key 4, key 3\<close> and \<open>key 1, key 4, key 2, key 3\<close>, and the
  serialized messages differ.
\<close>

theorem NewMessage_order_counterexample:
  "iteration_order
     (mergeAccounts [\<lparr>ProgramID = key 3,
        Instruction.Accounts = [\<lparr>PubKey = key 1, IsSigner = True, IsWritable = True\<rparr>,
                                \<lparr>PubKey = key 2, IsSigner = False, IsWritable = True\<rparr>,
                                \<lparr>PubKey = key 4, IsSigner = False, IsWritable = True\<rparr>],
        Instruction.Data = [9]\<rparr>]) [key 3, key 1, key 2, key 4]
   \<and> iteration_order
     (mergeAccounts [\<lparr>ProgramID = key 3,
        Instruction.Accounts = [\<lparr>PubKey = key 1, IsSigner = True, IsWritable = True\<rparr>,
                                \<lparr>PubKey = key 2, IsSigner = False, IsWritable = True\<rparr>,
                                \<lparr>PubKey = key 4, IsSigner = False, IsWritable = True\<rparr>],
        Instruction.Data = [9]\<rparr>]) [key 3, key 1, key 4, key 2]
   \<and> Message.Accounts (NewMessage [key 3, key 1, key 2, key 4] (key 1)
        [\<lparr>ProgramID = key 3,
          Instruction.Accounts = [\<lparr>PubKey = key 1, IsSigner = True, IsWritable = True\<rparr>,
                                  \<lparr>PubKey = key 2, IsSigner = False, IsWritable = True\<rparr>,
                                  \<lparr>PubKey = key 4, IsSigner = False, IsWritable = True\<rparr>],
          Instruction.Data = [9]\<rparr>] zero_hash) = [key 1, key 2, key 4, key 3]
   \<and> Message.Accounts (NewMessage [key 3, key 1, key 4, key 2] (key 1)
        [\<lparr>ProgramID = key 3,
          Instruction.Accounts = [\<lparr>PubKey = key 1, IsSigner = True, IsWritable = True\<rparr>,
                                  \<lparr>PubKey = key 2, IsSigner = False, IsWritable = True\<rparr>,
                                  \<lparr>PubKey = key 4, IsSigner = False, IsWritable = True\<rparr>],
          Instruction.Data = [9]\<rparr>] zero_hash) = [key 1, key 4, key 2, key 3]
   \<and> Serialize base58_Decode (NewMessage [key 3, key 1, key 2, key 4] (key 1)
        [\<lparr>ProgramID = key 3,
          Instruction.Accounts = [\<lparr>PubKey = key 1, IsSigner = True, IsWritable = True\<rparr>,
                                  \<lparr>PubKey = key 2, IsSigner = False, IsWritable = True\<rparr>,
                                  \<lparr>PubKey = key 4, IsSigner = False, IsWritable = True\<rparr>],
          Instruction.Data = [9]\<rparr>] zero_hash)
     \<noteq> Serialize base58_Decode (NewMessage [key 3, key 1, key 4, key 2] (key 1)
        [\<lparr>ProgramID = key 3,
          Instruction.Accounts = [\<lparr>PubKey = key 1, IsSigner = True, IsWritable = True\<rparr>,
                                  \<lparr>PubKey = key 2, IsSigner = False, IsWritable = True\<rparr>,
                                  \<lparr>PubKey = key 4, IsSigner = False, IsWritable = True\<rparr>],
          Instruction.Data = [9]\<rparr>] zero_hash)"
proof -
  let ?is = "[\<lparr>ProgramID = key 3,
        Instruction.Accounts = [\<lparr>PubKey = key 1, IsSigner = True, IsWritable = True\<rparr>,
                                \<lparr>PubKey = key 2, IsSigner = False, IsWritable = True\<rparr>,
                                \<lparr>PubKey = key 4, IsSigner = False, IsWritable = True\<rparr>],
        Instruction.Data = [9]\<rparr>]"
  have h1: "iteration_order (mergeAccounts ?is) [key 3, key 1, key 2, key 4]"
    by (auto simp: iteration_order_merge mentioned_def)
  have h2: "iteration_order (mergeAccounts ?is) [key 3, key 1, key 4, key 2]"
    by (auto simp: iteration_order_merge mentioned_def)
  have a1: "Message.Accounts (NewMessage [key 3, key 1, key 2, key 4] (key 1) ?is zero_hash)
              = [key 1, key 2, key 4, key 3]"
    by code_simp
  have a2: "Message.Accounts (NewMessage [key 3, key 1, key 4, key 2] (key 1) ?is zero_hash)
              = [key 1, key 4, key 2, key 3]"
    by code_simp
  have s: "Serialize base58_Decode (NewMessage [key 3, key 1, key 2, key 4] (key 1) ?is zero_hash)
     \<noteq> Serialize base58_Decode (NewMessage [key 3, key 1, key 4, key 2] (key 1) ?is zero_hash)"
    by code_simp
  from h1 h2 a1 a2 s show ?thesis
    by blast
qed

section \<open>Serializing\<close>

lemma UintToVarLenBytes_error: "UintToVarLenBytes l = Inl e \<Longrightarrow> e = Panic"
  by (cases "l = 0") (simp_all add: UintToVarLenBytes_zero UintToVarLenBytes_nonzero)

lemma UintToVarLenBytes_length:
  assumes "xs \<noteq> []" and "fits_int xs"
  shows "UintToVarLenBytes (of_nat (length xs)) = Inr (uvarint (length xs))"
proof -
  have "length xs < 2 ^ 64"
    using assms(2) by (simp add: fits_int_def)
  then have u: "unat (of_nat (length xs) :: uint64) = length xs"
    by (simp add: unat_of_nat)
  with assms(1) have "(of_nat (length xs) :: uint64) \<noteq> 0"
    by (metis length_0_conv unat_0)
  then show ?thesis
    using u by (simp add: UintToVarLenBytes_nonzero)
qed

lemma serializeInstructions_error: "serializeInstructions cis = Inl e \<Longrightarrow> e = Panic"
  by (induction cis arbitrary: e)
     (auto split: sum.splits dest: UintToVarLenBytes_error)

lemma byte_of_int_mod: "(of_int (i mod 256) :: byte) = of_int i"
proof -
  have "(of_int (i mod 2 ^ LENGTH(8)) :: byte) = of_int i"
    by (simp only: word_of_int_eq_iff take_bit_eq_mod[symmetric] take_bit_take_bit)
  then show ?thesis by simp
qed

lemma byte_of_nat_mod: "(of_nat (n mod 256) :: byte) = of_nat n"
proof -
  have "(of_nat (n mod 2 ^ LENGTH(8)) :: byte) = of_nat n"
    by (simp only: word_of_nat_eq_iff take_bit_eq_mod[symmetric] take_bit_take_bit)
  then show ?thesis by simp
qed

lemma serializeInstructions_wire:
  "list_all (\<lambda>ci. CompiledInstruction.Accounts ci \<noteq> [] \<and> fits_int (CompiledInstruction.Accounts ci)) cis
   \<Longrightarrow> serializeInstructions cis = Inr (concat (map wire_instruction cis))"
  by (induction cis)
     (simp_all add: UintToVarLenBytes_length wire_instruction_def byte_of_int_mod byte_of_nat_mod)

lemma Serialize_wire:
  assumes "counted m" and "dec (RecentBlockHash m) = Some blockHash"
  shows "Serialize dec m = Inr (wire_message blockHash m)"
  using assms
  by (simp add: Serialize_def counted_def UintToVarLenBytes_length serializeInstructions_wire
      wire_message_def)

lemma Serialize_error:
  assumes "Serialize dec m = Inl e"
  shows "e = Panic \<or> (e = Base58Error \<and> dec (RecentBlockHash m) = None)"
  using assms
  by (auto simp: Serialize_def Let_def split: sum.splits option.splits
      dest: UintToVarLenBytes_error serializeInstructions_error)

lemma Serialize_decode_error:
  assumes "Message.Accounts m \<noteq> []" and "fits_int (Message.Accounts m)"
    and "dec (RecentBlockHash m) = None"
  shows "Serialize dec m = Inl Base58Error"
  using assms by (simp add: Serialize_def UintToVarLenBytes_length)

text \<open>
  C7 (as amended). \<^verbatim>\<open>Serialize\<close> returns the decoder's error, and no bytes, when the
  block hash text does not decode (the account list being non-empty, so that the account
  count is encoded). It does not look at the length of the decoded block hash: when the
  text decodes, to however many bytes, \<^verbatim>\<open>Serialize\<close> does not return that error, and on
  a message without a zero count it emits the wire format with those bytes in the place
  of the block hash.
\<close>

theorem Serialize_block_hash_unchecked:
  "(Message.Accounts m \<noteq> [] \<and> fits_int (Message.Accounts m) \<and> dec (RecentBlockHash m) = None
      \<longrightarrow> Serialize dec m = Inl Base58Error)
   \<and> (dec (RecentBlockHash m) = Some blockHash \<longrightarrow> Serialize dec m \<noteq> Inl Base58Error)
   \<and> (dec (RecentBlockHash m) = Some blockHash \<and> counted m
      \<longrightarrow> Serialize dec m = Inr (wire_message blockHash m))"
  using Serialize_decode_error[of m dec] Serialize_error[of dec m Base58Error]
    Serialize_wire[of m dec blockHash]
  by auto

text \<open>
  The theorem at concrete inputs: a message with two accounts and one instruction, once
  with the block hash text \<open>0\<close>, which is not base58, and once with the text \<open>2\<close>,
  which decodes to the single byte 1.
\<close>

theorem Serialize_block_hash_unchecked_witness:
  "base58_Decode ''0'' = None
   \<and> Serialize base58_Decode
        \<lparr>Header = \<lparr>NumRequireSignatures = 1, NumReadonlySignedAccounts = 0,
                   NumReadonlyUnsignedAccounts = 1\<rparr>,
         Message.Accounts = [key 1, key 3], RecentBlockHash = ''0'',
         Instructions = [\<lparr>ProgramIDIndex = 1, CompiledInstruction.Accounts = [0],
                          CompiledInstruction.Data = [9]\<rparr>]\<rparr> = Inl Base58Error
   \<and> base58_Decode ''2'' = Some [1]
   \<and> Serialize base58_Decode
        \<lparr>Header = \<lparr>NumRequireSignatures = 1, NumReadonlySignedAccounts = 0,
                   NumReadonlyUnsignedAccounts = 1\<rparr>,
         Message.Accounts = [key 1, key 3], RecentBlockHash = ''2'',
         Instructions = [\<lparr>ProgramIDIndex = 1, CompiledInstruction.Accounts = [0],
                          CompiledInstruction.Data = [9]\<rparr>]\<rparr>
       = Inr (wire_message [1]
        \<lparr>Header = \<lparr>NumRequireSignatures = 1, NumReadonlySignedAccounts = 0,
                   NumReadonlyUnsignedAccounts = 1\<rparr>,
         Message.Accounts = [key 1, key 3], RecentBlockHash = ''2'',
         Instructions = [\<lparr>ProgramIDIndex = 1, CompiledInstruction.Accounts = [0],
                          CompiledInstruction.Data = [9]\<rparr>]\<rparr>)"
proof -
  let ?m = "\<lambda>h. \<lparr>Header = \<lparr>NumRequireSignatures = 1, NumReadonlySignedAccounts = 0,
                   NumReadonlyUnsignedAccounts = 1\<rparr>,
         Message.Accounts = [key 1, key 3], RecentBlockHash = h,
         Instructions = [\<lparr>ProgramIDIndex = 1, CompiledInstruction.Accounts = [0],
                          CompiledInstruction.Data = [9]\<rparr>]\<rparr>"
  have d0: "base58_Decode ''0'' = None"
    by code_simp
  have d2: "base58_Decode ''2'' = Some [1]"
    by code_simp
  have c: "counted (?m h)" for h
    by (simp add: counted_def fits_int_def)
  have a: "Message.Accounts (?m ''0'') \<noteq> [] \<and> fits_int (Message.Accounts (?m ''0''))"
    by (simp add: fits_int_def)
  from Serialize_block_hash_unchecked[of "?m ''0''" base58_Decode "[]"]
    Serialize_block_hash_unchecked[of "?m ''2''" base58_Decode "[1]"] d0 d2 c a
  show ?thesis
    by simp
qed

text \<open>
  C7 as stated fails: the text \<open>2\<close> is well-formed base58 and decodes to one byte, and
  \<^verbatim>\<open>Serialize\<close> returns a message with a one-byte block hash.
\<close>

theorem Serialize_short_block_hash_counterexample:
  "base58_Decode ''2'' = Some [1]
   \<and> Serialize base58_Decode
        \<lparr>Header = \<lparr>NumRequireSignatures = 1, NumReadonlySignedAccounts = 0,
                   NumReadonlyUnsignedAccounts = 1\<rparr>,
         Message.Accounts = [key 1, key 3], RecentBlockHash = ''2'',
         Instructions = [\<lparr>ProgramIDIndex = 1, CompiledInstruction.Accounts = [0],
                          CompiledInstruction.Data = [9]\<rparr>]\<rparr>
       = Inr ([1, 0, 1, 2] @ key 1 @ key 3 @ [1] @ [1, 1, 1, 0, 1, 9])"
proof -
  have d2: "base58_Decode ''2'' = Some [1]"
    by code_simp
  have s: "Serialize base58_Decode
        \<lparr>Header = \<lparr>NumRequireSignatures = 1, NumReadonlySignedAccounts = 0,
                   NumReadonlyUnsignedAccounts = 1\<rparr>,
         Message.Accounts = [key 1, key 3], RecentBlockHash = ''2'',
         Instructions = [\<lparr>ProgramIDIndex = 1, CompiledInstruction.Accounts = [0],
                          CompiledInstruction.Data = [9]\<rparr>]\<rparr>
       = Inr ([1, 0, 1, 2] @ key 1 @ key 3 @ [1] @ [1, 1, 1, 0, 1, 9])"
    by code_simp
  from d2 s show ?thesis by blast
qed

text \<open>
  C9 (as amended). Nothing rejects a message for its size. \<^verbatim>\<open>NewMessage\<close> has no error
  result. The only error \<^verbatim>\<open>Serialize\<close> returns is the decoder's, for a block hash text
  that does not decode (a zero count makes it panic). The instructions are written in
  the wire format whatever the size of their indices and payloads: the program index,
  each account index and the payload length are one byte each, the value modulo 256.
\<close>

theorem Serialize_never_rejects_size:
  "(Serialize dec m = Inl e \<longrightarrow> e = Panic \<or> (e = Base58Error \<and> dec (RecentBlockHash m) = None))
   \<and> (list_all (\<lambda>ci. CompiledInstruction.Accounts ci \<noteq> []
                       \<and> fits_int (CompiledInstruction.Accounts ci)) cis
      \<longrightarrow> serializeInstructions cis = Inr (concat (map wire_instruction cis)))"
  using Serialize_error[of dec m e] serializeInstructions_wire[of cis]
  by blast

text \<open>
  The theorem at concrete inputs: a message whose block hash text is not base58, and an
  instruction with the program index 257, the account index 256 and a payload of 256
  bytes, which is written with the bytes 1, 0 and 0 for them.
\<close>

theorem Serialize_never_rejects_size_witness:
  "Serialize base58_Decode
        \<lparr>Header = \<lparr>NumRequireSignatures = 1, NumReadonlySignedAccounts = 0,
                   NumReadonlyUnsignedAccounts = 1\<rparr>,
         Message.Accounts = [key 1, key 3], RecentBlockHash = ''0'',
         Instructions = [\<lparr>ProgramIDIndex = 1, CompiledInstruction.Accounts = [0],
                          CompiledInstruction.Data = [9]\<rparr>]\<rparr> = Inl Base58Error
   \<and> base58_Decode ''0'' = None
   \<and> list_all (\<lambda>ci. CompiledInstruction.Accounts ci \<noteq> []
                       \<and> fits_int (CompiledInstruction.Accounts ci))
        [\<lparr>ProgramIDIndex = 257, CompiledInstruction.Accounts = [256],
          CompiledInstruction.Data = replicate 256 7\<rparr>]
   \<and> serializeInstructions
        [\<lparr>ProgramIDIndex = 257, CompiledInstruction.Accounts = [256],
          CompiledInstruction.Data = replicate 256 7\<rparr>]
       = Inr ([1, 1, 0, 0] @ replicate 256 7)"
proof -
  let ?m = "\<lparr>Header = \<lparr>NumRequireSignatures = 1, NumReadonlySignedAccounts = 0,
                   NumReadonlyUnsignedAccounts = 1\<rparr>,
         Message.Accounts = [key 1, key 3], RecentBlockHash = ''0'',
         Instructions = [\<lparr>ProgramIDIndex = 1, CompiledInstruction.Accounts = [0],
                          CompiledInstruction.Data = [9]\<rparr>]\<rparr>"
  let ?cis = "[\<lparr>ProgramIDIndex = 257, CompiledInstruction.Accounts = [256],
          CompiledInstruction.Data = replicate 256 7\<rparr>]"
  have s: "Serialize base58_Decode ?m = Inl Base58Error"
    by code_simp
  have l: "list_all (\<lambda>ci. CompiledInstruction.Accounts ci \<noteq> []
                       \<and> fits_int (CompiledInstruction.Accounts ci)) ?cis"
    by (simp add: fits_int_def)
  have w: "concat (map wire_instruction ?cis) = [1, 1, 0, 0] @ replicate 256 7"
    by (simp add: wire_instruction_def uvarint.simps)
  from Serialize_never_rejects_size[of base58_Decode ?m Base58Error ?cis] s l w
  show ?thesis
    by simp
qed

text \<open>
  C9 as stated fails: a message compiled from an instruction with a payload of 256 bytes
  is serialized without an error, with the payload length byte 0.
\<close>

theorem Serialize_long_payload_counterexample:
  "length (replicate 256 (7::byte)) = 256
   \<and> Serialize base58_Decode
       (NewMessage [key 3, key 1] (key 1)
          [\<lparr>ProgramID = key 3,
            Instruction.Accounts = [\<lparr>PubKey = key 1, IsSigner = True, IsWritable = True\<rparr>],
            Instruction.Data = replicate 256 7\<rparr>] zero_hash)
     = Inr ([1, 0, 1, 2] @ key 1 @ key 3 @ replicate 32 0 @ [1, 1, 1, 0, 0] @ replicate 256 7)"
proof -
  have s: "Serialize base58_Decode
       (NewMessage [key 3, key 1] (key 1)
          [\<lparr>ProgramID = key 3,
            Instruction.Accounts = [\<lparr>PubKey = key 1, IsSigner = True, IsWritable = True\<rparr>],
            Instruction.Data = replicate 256 7\<rparr>] zero_hash)
     = Inr ([1, 0, 1, 2] @ key 1 @ key 3 @ replicate 32 0 @ [1, 1, 1, 0, 0] @ replicate 256 7)"
    by code_simp
  then show ?thesis by simp
qed

section \<open>Deserializing\<close>

text \<open>
  C2. A serialized message cut inside the payload of its last instruction makes
  \<^verbatim>\<open>MessageDeserialize\<close> panic: the payload length read is larger than what is left and
  the slice expressions are not guarded. The message is compiled from one instruction
  with the program \<open>key 3\<close>, the account \<open>key 1\<close> and the payload \<open>9\<close>, fee payer
  \<open>key 1\<close>; its serialization has 106 bytes and is read back as the message itself.
  Every prefix of fewer than 105 bytes is rejected with an error that is not a panic; the
  prefix of 105 bytes, which lacks the payload byte only, panics.
\<close>

theorem MessageDeserialize_truncated_payload_panics:
  "Serialize base58_Decode
       (NewMessage [key 3, key 1] (key 1)
          [\<lparr>ProgramID = key 3,
            Instruction.Accounts = [\<lparr>PubKey = key 1, IsSigner = True, IsWritable = True\<rparr>],
            Instruction.Data = [9]\<rparr>] zero_hash)
     = Inr ([1, 0, 1, 2] @ key 1 @ key 3 @ replicate 32 0 @ [1, 1, 1, 0, 1, 9])
   \<and> MessageDeserialize base58_Encode
       ([1, 0, 1, 2] @ key 1 @ key 3 @ replicate 32 0 @ [1, 1, 1, 0, 1, 9])
     = Inr (NewMessage [key 3, key 1] (key 1)
          [\<lparr>ProgramID = key 3,
            Instruction.Accounts = [\<lparr>PubKey = key 1, IsSigner = True, IsWritable = True\<rparr>],
            Instruction.Data = [9]\<rparr>] zero_hash)
   \<and> list_all
        (\<lambda>n. case MessageDeserialize base58_Encode
                    (take n ([1, 0, 1, 2] @ key 1 @ key 3 @ replicate 32 0 @ [1, 1, 1, 0, 1, 9])) of
                Inl e \<Rightarrow> e \<noteq> Panic
              | Inr m \<Rightarrow> False)
        [0..<105]
   \<and> take 105 ([1, 0, 1, 2] @ key 1 @ key 3 @ replicate 32 0 @ [1, 1, 1, 0, 1, 9])
     = [1, 0, 1, 2] @ key 1 @ key 3 @ replicate 32 0 @ [1, 1, 1, 0, 1]
   \<and> MessageDeserialize base58_Encode
       ([1, 0, 1, 2] @ key 1 @ key 3 @ replicate 32 0 @ [1, 1, 1, 0, 1])
     = Inl Panic"
proof -
  have s: "Serialize base58_Decode
       (NewMessage [key 3, key 1] (key 1)
          [\<lparr>ProgramID = key 3,
            Instruction.Accounts = [\<lparr>PubKey = key 1, IsSigner = True, IsWritable = True\<rparr>],
            Instruction.Data = [9]\<rparr>] zero_hash)
     = Inr ([1, 0, 1, 2] @ key 1 @ key 3 @ replicate 32 0 @ [1, 1, 1, 0, 1, 9])"
    by code_simp
  have r: "MessageDeserialize base58_Encode
       ([1, 0, 1, 2] @ key 1 @ key 3 @ replicate 32 0 @ [1, 1, 1, 0, 1, 9])
     = Inr (NewMessage [key 3, key 1] (key 1)
          [\<lparr>ProgramID = key 3,
            Instruction.Accounts = [\<lparr>PubKey = key 1, IsSigner = True, IsWritable = True\<rparr>],
            Instruction.Data = [9]\<rparr>] zero_hash)"
    by code_simp
  have e: "list_all
        (\<lambda>n. case MessageDeserialize base58_Encode
                    (take n ([1, 0, 1, 2] @ key 1 @ key 3 @ replicate 32 0 @ [1, 1, 1, 0, 1, 9])) of
                Inl e \<Rightarrow> e \<noteq> Panic
              | Inr m \<Rightarrow> False)
        [0..<105]"
    by code_simp
  have t: "take 105 ([1, 0, 1, 2] @ key 1 @ key 3 @ replicate 32 0 @ [1, 1, 1, 0, 1, 9])
     = [1, 0, 1, 2] @ key 1 @ key 3 @ replicate 32 0 @ [1, 1, 1, 0, 1]"
    by code_simp
  have p: "MessageDeserialize base58_Encode
       ([1, 0, 1, 2] @ key 1 @ key 3 @ replicate 32 0 @ [1, 1, 1, 0, 1])
     = Inl Panic"
    by code_simp
  from s r e t p show ?thesis by blast
qed

section \<open>Reading back what was written\<close>

lemma varint_split: "of_nat (n mod 128) OR push_bit 7 (of_nat (n div 128)) = (of_nat n :: uint64)"
proof -
  have m: "n mod 128 = take_bit 7 n" and d: "n div 128 = drop_bit 7 n"
    by (simp_all add: take_bit_eq_mod drop_bit_eq_div)
  show ?thesis
    unfolding m d
    by (rule bit_word_eqI) (auto simp: bit_simps)
qed

lemma low7_of_continuation: "(of_nat (128 + n mod 128) :: byte) AND 0x7f = of_nat (n mod 128)"
proof -
  have k: "(0x7f :: byte) = mask 7"
    by (simp add: mask_eq_exp_minus_1)
  have "(of_nat (128 + n mod 128) :: byte) AND mask 7 = of_nat (take_bit 7 (128 + n mod 128))"
    by (simp only: take_bit_eq_mask[symmetric] of_nat_take_bit)
  also have "take_bit 7 (128 + n mod 128) = n mod 128"
    by (simp add: take_bit_eq_mod)
  finally show ?thesis
    unfolding k .
qed

lemma byte_of_nat_unat: "k < 256 \<Longrightarrow> unat (of_nat k :: byte) = k"
  by (simp add: unat_of_nat)

lemma continuation_not_final: "\<not> (of_nat (128 + n mod 128) :: byte) < 0x80"
proof -
  have "unat (of_nat (128 + n mod 128) :: byte) = 128 + n mod 128"
    by (rule byte_of_nat_unat) simp
  moreover have "unat (0x80 :: byte) = 128"
    by simp
  ultimately show ?thesis
    unfolding word_less_nat_alt by linarith
qed

lemma final_byte: "n < 128 \<Longrightarrow> (of_nat n :: byte) < 0x80 \<and> (ucast (of_nat n :: byte) :: uint64) = of_nat n"
proof -
  assume n: "n < 128"
  then have u: "unat (of_nat n :: byte) = n"
    by (simp add: unat_of_nat)
  have "(ucast (of_nat n :: byte) :: uint64) = of_nat (unat (of_nat n :: byte))"
    by simp
  with u n show ?thesis
    by (simp add: word_less_nat_alt)
qed

lemma uvarint_read_uvarint:
  "i + length (uvarint n) \<le> MaxVarintLen64 \<Longrightarrow>
   uvarint_read i s x (uvarint n @ rest) = Some (x OR push_bit s (of_nat n), rest)"
proof (induction n arbitrary: i s x rule: uvarint.induct)
  case (1 n)
  show ?case
  proof (cases "n < 128")
    case True
    then have e: "uvarint n = [of_nat n]"
      by (simp add: uvarint.simps)
    with "1.prems" have i: "\<not> MaxVarintLen64 \<le> i"
      by simp
    show ?thesis
      using i final_byte[OF True] by (simp add: e)
  next
    case False
    define b :: byte where "b = of_nat (128 + n mod 128)"
    have e: "uvarint n = b # uvarint (n div 128)"
      unfolding b_def using False by (subst uvarint.simps) simp
    with "1.prems" have i: "\<not> MaxVarintLen64 \<le> i"
      and l: "(i + 1) + length (uvarint (n div 128)) \<le> MaxVarintLen64"
      by simp_all
    have nb: "\<not> b < 0x80"
      unfolding b_def by (rule continuation_not_final)
    have "(ucast (b AND 0x7f) :: uint64) = ucast (of_nat (n mod 128) :: byte)"
      unfolding b_def by (simp only: low7_of_continuation)
    also have "\<dots> = of_nat (n mod 128)"
      using final_byte[of "n mod 128"] by simp
    finally have c: "(ucast (b AND 0x7f) :: uint64) = of_nat (n mod 128)" .
    have "(x OR push_bit s (of_nat (n mod 128))) OR push_bit (s + 7) (of_nat (n div 128))
            = x OR push_bit s (of_nat (n mod 128) OR push_bit 7 (of_nat (n div 128)))"
      by (simp add: push_bit_or push_bit_push_bit or.assoc add.commute)
    also have "\<dots> = x OR push_bit s (of_nat n :: uint64)"
      by (simp only: varint_split)
    finally have "(x OR push_bit s (of_nat (n mod 128))) OR push_bit (s + 7) (of_nat (n div 128))
            = x OR push_bit s (of_nat n :: uint64)" .
    with "1.IH"[OF False l, of "s + 7" "x OR push_bit s (of_nat (n mod 128))" ]
    show ?thesis
      using i nb by (simp add: e c)
  qed
qed

lemma parseUvarint_uvarint:
  assumes "n < 2 ^ 63"
  shows "parseUvarint (uvarint n @ rest) = (of_nat n, False, rest)"
proof -
  have "n < 128 ^ 9"
    using assms by simp
  then have "length (uvarint n) \<le> 9"
    by (rule uvarint_length) simp
  then have "0 + length (uvarint n) \<le> MaxVarintLen64"
    by (simp add: MaxVarintLen64_def)
  from uvarint_read_uvarint[OF this, of 0 0 rest] show ?thesis
    by (simp add: parseUvarint_def)
qed

lemma parseUvarint_byte:
  "b < 0x80 \<Longrightarrow> parseUvarint (b # rest) = (ucast b, False, rest)"
  by (simp add: parseUvarint_def MaxVarintLen64_def)

lemma sint_of_nat_small: "n < 2 ^ 63 \<Longrightarrow> sint (of_nat n :: uint64) = int n"
  by (simp add: signed_of_nat signed_take_bit_int_eq_self)

lemma unat_of_nat_small: "n < 2 ^ 63 \<Longrightarrow> unat (of_nat n :: uint64) = n"
  by (simp add: unat_of_nat)

lemma header_byte:
  "\<not> 255 < (ucast (b :: byte) :: uint64) \<and> (ucast (ucast b :: uint64) :: byte) = b"
proof -
  have lt: "unat b < 256"
    using unsigned_less[of b, where ?'a = nat] by simp
  have "unat (ucast b :: uint64) = take_bit 64 (unat b)"
    by (simp add: unsigned_ucast_eq)
  also have "\<dots> = unat b"
    using lt by (simp add: take_bit_eq_mod)
  finally have "unat (ucast b :: uint64) = unat b" .
  with lt have "\<not> 255 < (ucast b :: uint64)"
    by (simp add: word_less_nat_alt)
  moreover have "(ucast (ucast b :: uint64) :: byte) = b"
    by (simp add: ucast_up_ucast_id is_up)
  ultimately show ?thesis by simp
qed

lemma parseHeader_bytes:
  assumes "h1 < 0x80" and "h2 < 0x80" and "h3 < 0x80"
  shows "parseHeader 0 3 ([h1, h2, h3] @ rest) = Inr ([h1, h2, h3], rest)"
  using assms by (simp add: numeral_3_eq_3 parseUvarint_byte header_byte)

lemma readAccounts_concat:
  "list_all (\<lambda>k. length k = 32) ks \<Longrightarrow> readAccounts (length ks) (concat ks @ rest) = (ks, rest)"
  by (induction ks) simp_all

lemma small_index_byte:
  assumes "0 \<le> i" and "i < 128"
  shows "(of_int (i mod 256) :: byte) < 0x80
       \<and> sint (ucast (of_int (i mod 256) :: byte) :: uint64) = i"
proof -
  obtain n where n: "i = int n" "n < 128"
    using assms by (metis nat_less_iff zero_le_imp_eq_int zless_nat_conj nat_int numeral_eq_iff of_nat_numeral)
  then have b: "(of_int (i mod 256) :: byte) = of_nat n"
    unfolding byte_of_int_mod by simp
  have "sint (of_nat n :: uint64) = int n"
    using n(2) by (intro sint_of_nat_small) simp
  then show ?thesis
    unfolding b using final_byte[OF n(2)] n(1) by simp
qed

lemma small_length_byte:
  assumes "n < 128"
  shows "(of_nat (n mod 256) :: byte) < 0x80
       \<and> unat (ucast (of_nat (n mod 256) :: byte) :: uint64) = n"
proof -
  have "unat (of_nat n :: uint64) = n"
    using assms by (intro unat_of_nat_small) simp
  then show ?thesis
    unfolding byte_of_nat_mod using final_byte[OF assms] by simp
qed

lemma readAccountIdx_bytes:
  "list_all (\<lambda>idx. 0 \<le> idx \<and> idx < 128) idxs \<Longrightarrow>
   readAccountIdx i j (length idxs) (map (\<lambda>idx. of_int (idx mod 256)) idxs @ rest) = Inr (idxs, rest)"
proof (induction idxs arbitrary: j)
  case Nil
  then show ?case by simp
next
  case (Cons idx idxs)
  define b :: byte where "b = of_int (idx mod 256)"
  have s: "b < 0x80 \<and> sint (ucast b :: uint64) = idx"
    unfolding b_def using Cons.prems by (intro small_index_byte) simp_all
  have w: "map (\<lambda>idx. of_int (idx mod 256)) (idx # idxs) @ rest
             = b # (map (\<lambda>idx. of_int (idx mod 256)) idxs @ rest)"
    by (simp add: b_def)
  from Cons have "readAccountIdx i (Suc j) (length idxs)
      (map (\<lambda>idx. of_int (idx mod 256)) idxs @ rest) = Inr (idxs, rest)"
    by simp
  then show ?case
    unfolding w using s by (simp add: parseUvarint_byte)
qed

lemma readInstructions_wire:
  "list_all (\<lambda>ci. 0 \<le> ProgramIDIndex ci \<and> ProgramIDIndex ci < 128
                 \<and> list_all (\<lambda>idx. 0 \<le> idx \<and> idx < 128) (CompiledInstruction.Accounts ci)
                 \<and> length (CompiledInstruction.Data ci) < 128) cis \<Longrightarrow>
   list_all (\<lambda>ci. fits_int (CompiledInstruction.Accounts ci)) cis \<Longrightarrow>
   readInstructions i (length cis) (concat (map wire_instruction cis) @ rest) = Inr (cis, rest)"
proof (induction cis arbitrary: i)
  case Nil
  then show ?case by simp
next
  case (Cons ci cis)
  let ?accs = "CompiledInstruction.Accounts ci"
  let ?data = "CompiledInstruction.Data ci"
  let ?tail = "concat (map wire_instruction cis) @ rest"
  define pb :: byte where "pb = of_int (ProgramIDIndex ci mod 256)"
  define lb :: byte where "lb = of_nat (length ?data mod 256)"
  have p: "pb < 0x80 \<and> sint (ucast pb :: uint64) = ProgramIDIndex ci"
    unfolding pb_def using Cons.prems(1) by (intro small_index_byte) simp_all
  have n: "length ?accs < 2 ^ 63"
    using Cons.prems(2) by (simp add: fits_int_def)
  have c: "parseUvarint (uvarint (length ?accs) @ bs) = (of_nat (length ?accs), False, bs)" for bs
    using n by (rule parseUvarint_uvarint)
  have cn: "nat (sint (of_nat (length ?accs) :: uint64)) = length ?accs"
    using n by (simp add: sint_of_nat_small)
  have a: "readAccountIdx i 0 (length ?accs) (map (\<lambda>idx. of_int (idx mod 256)) ?accs @ bs)
             = Inr (?accs, bs)" for bs
    using Cons.prems(1) by (intro readAccountIdx_bytes) simp
  have d: "lb < 0x80 \<and> unat (ucast lb :: uint64) = length ?data"
    unfolding lb_def using Cons.prems(1) by (intro small_length_byte) simp
  have r: "readInstructions (Suc i) (length cis) ?tail = Inr (cis, rest)"
    using Cons by simp
  have w: "concat (map wire_instruction (ci # cis)) @ rest =
        pb # (uvarint (length ?accs)
           @ (map (\<lambda>idx. of_int (idx mod 256)) ?accs
              @ (lb # (?data @ ?tail))))"
    by (simp add: wire_instruction_def pb_def lb_def)
  show ?case
    unfolding w
    using p d
    by (simp add: parseUvarint_byte c cn a r)
qed

lemma length_concat_keys:
  "list_all (\<lambda>k. length k = 32) ks \<Longrightarrow> length (concat ks) = 32 * length ks"
  by (induction ks) simp_all

lemma MessageDeserialize_wire:
  assumes safe: "read_back_safe m" and bh: "length blockHash = 32"
    and enc: "enc blockHash = RecentBlockHash m"
  shows "MessageDeserialize enc (wire_message blockHash m) = Inr m"
proof -
  let ?ks = "Message.Accounts m"
  let ?cis = "Instructions m"
  let ?h1 = "NumRequireSignatures (Header m)"
  let ?h2 = "NumReadonlySignedAccounts (Header m)"
  let ?h3 = "NumReadonlyUnsignedAccounts (Header m)"
  let ?R4 = "uvarint (length ?cis) @ concat (map wire_instruction ?cis)"
  let ?R3 = "blockHash @ ?R4"
  let ?R2 = "concat ?ks @ ?R3"
  let ?R1 = "uvarint (length ?ks) @ ?R2"
  have w: "wire_message blockHash m = [?h1, ?h2, ?h3] @ ?R1"
    by (simp add: wire_message_def)
  have h: "parseHeader 0 3 ([?h1, ?h2, ?h3] @ ?R1) = Inr ([?h1, ?h2, ?h3], ?R1)"
    using safe by (intro parseHeader_bytes) (simp_all add: read_back_safe_def)
  have nk: "length ?ks < 2 ^ 58" and k32: "list_all (\<lambda>k. length k = 32) ?ks"
    using safe by (simp_all add: read_back_safe_def)
  have nk': "length ?ks < 2 ^ 63" "length ?ks * 32 < 2 ^ 63"
    using nk by simp_all
  have c1: "parseUvarint ?R1 = (of_nat (length ?ks), False, ?R2)"
    using nk'(1) by (rule parseUvarint_uvarint)
  have "(of_nat (length ?ks) * 32 :: uint64) = of_nat (length ?ks * 32)"
    by simp
  then have s1: "sint (of_nat (length ?ks) * 32 :: uint64) = int (length ?ks * 32)"
    using sint_of_nat_small[OF nk'(2)] by simp
  have u1: "unat (of_nat (length ?ks) :: uint64) = length ?ks"
    using nk'(1) by (rule unat_of_nat_small)
  have l2: "length (concat ?ks) = 32 * length ?ks"
    using k32 by (rule length_concat_keys)
  have a: "readAccounts (length ?ks) ?R2 = (?ks, ?R3)"
    using k32 by (rule readAccounts_concat)
  have ni: "length ?cis < 2 ^ 63"
    using safe by (simp add: read_back_safe_def fits_int_def)
  have c2: "parseUvarint ?R4 = (of_nat (length ?cis), False, concat (map wire_instruction ?cis))"
    using parseUvarint_uvarint[OF ni, of "concat (map wire_instruction ?cis)"] by simp
  have n2: "nat (sint (of_nat (length ?cis) :: uint64)) = length ?cis"
    using ni by (simp add: sint_of_nat_small)
  have r: "readInstructions 0 (length ?cis) (concat (map wire_instruction ?cis)) = Inr (?cis, [])"
    using readInstructions_wire[of ?cis 0 "[]"] safe by (simp add: read_back_safe_def)
  have hd: "\<lparr>NumRequireSignatures = ?h1, NumReadonlySignedAccounts = ?h2,
             NumReadonlyUnsignedAccounts = ?h3\<rparr> = Header m"
    by simp
  have "MessageDeserialize enc ([?h1, ?h2, ?h3] @ ?R1) =
      Inr \<lparr>Header = Header m, Message.Accounts = ?ks, RecentBlockHash = RecentBlockHash m,
           Instructions = ?cis\<rparr>"
    unfolding MessageDeserialize_def h
    by (simp add: c1 s1 u1 l2 a bh c2 n2 r enc hd del: append_Cons)
  then show ?thesis
    unfolding w by simp
qed

lemma round_trip_message:
  assumes "counted m" and "read_back_safe m"
    and "dec (RecentBlockHash m) = Some blockHash"
    and "length blockHash = 32" and "enc blockHash = RecentBlockHash m"
  shows "Serialize dec m = Inr (wire_message blockHash m)
       \<and> MessageDeserialize enc (wire_message blockHash m) = Inr m"
  using assms Serialize_wire[of m dec blockHash] MessageDeserialize_wire[of m blockHash enc]
  by simp

section \<open>Compiled messages that are read back\<close>

lemma tiers_length:
  "length (filter (tier m feePayer True True) ks) + length (filter (tier m feePayer True False) ks)
   + length (filter (tier m feePayer False True) ks) + length (filter (tier m feePayer False False) ks)
   \<le> length ks"
  by (induction ks) (auto simp: tier_def)

lemma NewMessage_Accounts_length:
  assumes "iteration_order (mergeAccounts is) ks"
  shows "length (Message.Accounts (NewMessage ks feePayer is h)) \<le> Suc (length ks)"
  using tiers_length[of "mergeAccounts is" feePayer ks]
  by (cases "feePayer = ZeroPublicKey") (simp_all add: NewMessage_Accounts[OF assms])

lemma NewMessage_Accounts_subset:
  assumes "iteration_order (mergeAccounts is) ks"
  shows "set (Message.Accounts (NewMessage ks feePayer is h)) \<subseteq> insert feePayer (mentioned is)"
  using assms
  by (auto simp: NewMessage_Accounts[OF assms] iteration_order_merge)

lemma NewMessage_Header_lengths:
  assumes "iteration_order (mergeAccounts is) ks"
  shows "Header (NewMessage ks feePayer is h) =
     \<lparr>NumRequireSignatures =
        of_nat ((if feePayer \<noteq> ZeroPublicKey then 1 else 0)
                + length (filter (tier (mergeAccounts is) feePayer True True) ks)
                + length (filter (tier (mergeAccounts is) feePayer True False) ks)),
      NumReadonlySignedAccounts =
        of_nat (length (filter (tier (mergeAccounts is) feePayer True False) ks)),
      NumReadonlyUnsignedAccounts =
        of_nat (length (filter (tier (mergeAccounts is) feePayer False False) ks))\<rparr>"
  by (simp add: NewMessage_Header[OF assms] tier_count[OF assms])

lemma NewMessage_index_bounds:
  assumes "iteration_order (mergeAccounts is) ks" and "i \<in> set is"
  shows "0 \<le> ProgramIDIndex (compileInstruction
              (publicKeyToIdx (Message.Accounts (NewMessage ks feePayer is h))) i)
       \<and> ProgramIDIndex (compileInstruction
              (publicKeyToIdx (Message.Accounts (NewMessage ks feePayer is h))) i)
           < int (length (Message.Accounts (NewMessage ks feePayer is h)))
       \<and> (\<forall>idx \<in> set (CompiledInstruction.Accounts (compileInstruction
              (publicKeyToIdx (Message.Accounts (NewMessage ks feePayer is h))) i)).
            0 \<le> idx \<and> idx < int (length (Message.Accounts (NewMessage ks feePayer is h))))"
proof -
  have "ProgramID i \<in> set (Message.Accounts (NewMessage ks feePayer is h))"
    and "PubKey ` set (Instruction.Accounts i)
           \<subseteq> set (Message.Accounts (NewMessage ks feePayer is h))"
    using mentioned_instruction[OF assms(2)] NewMessage_holds_mentioned[OF assms(1), of feePayer h]
    by blast+
  then show ?thesis
    by (rule compileInstruction_bounds)
qed

lemma small_count_byte: "n < 128 \<Longrightarrow> (of_nat n :: byte) < 0x80"
  using final_byte[of n] by simp

lemma NewMessage_counted:
  assumes io: "iteration_order (mergeAccounts is) ks"
    and ne: "is \<noteq> []" and fi: "fits_int is"
    and each: "list_all (\<lambda>i. Instruction.Accounts i \<noteq> [] \<and> fits_int (Instruction.Accounts i)) is"
    and few: "length ks < 127"
  shows "counted (NewMessage ks feePayer is h)"
proof -
  let ?m = "NewMessage ks feePayer is h"
  obtain i where i: "i \<in> set is"
    using ne by (cases "is") auto
  then have "ProgramID i \<in> set (Message.Accounts ?m)"
    using mentioned_instruction[OF i] NewMessage_holds_mentioned[OF io, of feePayer h] by blast
  then have a: "Message.Accounts ?m \<noteq> []"
    by auto
  have "length (Message.Accounts ?m) \<le> Suc (length ks)"
    using io by (rule NewMessage_Accounts_length)
  then have b: "fits_int (Message.Accounts ?m)"
    using few by (simp add: fits_int_def)
  have c: "Instructions ?m \<noteq> []" "fits_int (Instructions ?m)"
    using ne fi by (simp_all add: NewMessage_Instructions fits_int_def)
  have d: "list_all (\<lambda>ci. CompiledInstruction.Accounts ci \<noteq> []
                        \<and> fits_int (CompiledInstruction.Accounts ci)) (Instructions ?m)"
    using each
    by (simp add: NewMessage_Instructions list_all_iff compileInstruction_def fits_int_def)
  from a b c d show ?thesis
    by (simp add: counted_def)
qed

lemma NewMessage_read_back_safe:
  assumes io: "iteration_order (mergeAccounts is) ks"
    and fi: "fits_int is"
    and each: "list_all (\<lambda>i. fits_int (Instruction.Accounts i)
                              \<and> length (Instruction.Data i) < 128) is"
    and few: "length ks < 127"
    and k32: "list_all (\<lambda>i. length (ProgramID i) = 32
                  \<and> list_all (\<lambda>a. length (PubKey a) = 32) (Instruction.Accounts i)) is"
    and f32: "length feePayer = 32"
  shows "read_back_safe (NewMessage ks feePayer is h)"
proof -
  let ?m = "NewMessage ks feePayer is h"
  let ?t = "tier (mergeAccounts is) feePayer"
  have len: "length (Message.Accounts ?m) < 128"
    using NewMessage_Accounts_length[OF io, of feePayer h] few by simp
  have t: "length (filter (?t True True) ks) + length (filter (?t True False) ks)
           + length (filter (?t False True) ks) + length (filter (?t False False) ks) < 127"
    using tiers_length[of "mergeAccounts is" feePayer ks] few by simp
  have h1: "NumRequireSignatures (Header ?m) < 0x80"
    unfolding NewMessage_Header_lengths[OF io] using t
    by (simp only: MessageHeader.simps)
       (rule small_count_byte, cases "feePayer = ZeroPublicKey", simp_all)
  have h2: "NumReadonlySignedAccounts (Header ?m) < 0x80"
    unfolding NewMessage_Header_lengths[OF io] using t
    by (simp only: MessageHeader.simps) (rule small_count_byte, simp)
  have h3: "NumReadonlyUnsignedAccounts (Header ?m) < 0x80"
    unfolding NewMessage_Header_lengths[OF io] using t
    by (simp only: MessageHeader.simps) (rule small_count_byte, simp)
  have "length k = 32" if "k \<in> mentioned is" for k
    using that k32 by (auto simp: mentioned_def list_all_iff)
  then have keys: "list_all (\<lambda>k. length k = 32) (Message.Accounts ?m)"
    using NewMessage_Accounts_subset[OF io, of feePayer h] f32
    by (auto simp: list_all_iff)
  have ci: "0 \<le> ProgramIDIndex ci \<and> ProgramIDIndex ci < 128
         \<and> list_all (\<lambda>idx. 0 \<le> idx \<and> idx < 128) (CompiledInstruction.Accounts ci)
         \<and> length (CompiledInstruction.Data ci) < 128
         \<and> fits_int (CompiledInstruction.Accounts ci)"
    if "ci \<in> set (Instructions ?m)" for ci
  proof -
    from that obtain i where i: "i \<in> set is"
      and c: "ci = compileInstruction (publicKeyToIdx (Message.Accounts ?m)) i"
      by (auto simp: NewMessage_Instructions)
    have b: "0 \<le> ProgramIDIndex ci \<and> ProgramIDIndex ci < int (length (Message.Accounts ?m))
       \<and> (\<forall>idx \<in> set (CompiledInstruction.Accounts ci).
            0 \<le> idx \<and> idx < int (length (Message.Accounts ?m)))"
      unfolding c using io i by (rule NewMessage_index_bounds)
    have d: "length (CompiledInstruction.Data ci) < 128 \<and> fits_int (CompiledInstruction.Accounts ci)"
      using each i by (auto simp: c compileInstruction_def list_all_iff fits_int_def)
    from b d len show ?thesis
      by (auto simp: list_all_iff)
  qed
  have fi': "fits_int (Instructions ?m)"
    using fi by (simp add: NewMessage_Instructions fits_int_def)
  from h1 h2 h3 len keys ci fi' show ?thesis
    by (simp add: read_back_safe_def list_all_iff)
qed

text \<open>
  C3 (as amended). Take a message compiled by \<^verbatim>\<open>NewMessage\<close> from a non-empty sequence
  of instructions, each with at least one account and a payload shorter than 128 bytes,
  that mention fewer than 127 distinct identities (so that, with the fee payer, there are
  fewer than 128 accounts); the keys have 32 bytes, and the block hash text decodes to 32
  bytes that encode to the same text. Then \<^verbatim>\<open>Serialize\<close> succeeds with the wire format
  of the message, and \<^verbatim>\<open>MessageDeserialize\<close> of these bytes succeeds and gives the message
  back: header, accounts in order, block hash text and instructions.
\<close>

theorem round_trip:
  assumes "iteration_order (mergeAccounts instructions) ks"
    and "instructions \<noteq> []" and "fits_int instructions"
    and "list_all (\<lambda>i. Instruction.Accounts i \<noteq> [] \<and> fits_int (Instruction.Accounts i)
                        \<and> length (Instruction.Data i) < 128) instructions"
    and "length ks < 127"
    and "list_all (\<lambda>i. length (ProgramID i) = 32
                        \<and> list_all (\<lambda>a. length (PubKey a) = 32) (Instruction.Accounts i))
           instructions"
    and "length feePayer = 32"
    and "dec h = Some blockHash" and "length blockHash = 32" and "enc blockHash = h"
  shows "Serialize dec (NewMessage ks feePayer instructions h)
           = Inr (wire_message blockHash (NewMessage ks feePayer instructions h))
       \<and> MessageDeserialize enc (wire_message blockHash (NewMessage ks feePayer instructions h))
           = Inr (NewMessage ks feePayer instructions h)"
proof -
  let ?m = "NewMessage ks feePayer instructions h"
  have h: "RecentBlockHash ?m = h"
    by (simp add: NewMessage_def Let_def)
  have c: "counted ?m"
    using assms(1,2,3) _ assms(5)
    by (rule NewMessage_counted) (use assms(4) in \<open>simp add: list_all_iff\<close>)
  have s: "read_back_safe ?m"
    using assms(1,3) _ assms(5,6,7)
    by (rule NewMessage_read_back_safe) (use assms(4) in \<open>simp add: list_all_iff\<close>)
  show ?thesis
    using round_trip_message[of ?m dec blockHash enc] c s assms(8,9,10)
    by (simp add: h)
qed

text \<open>
  The theorem on the scenario of the specification: one instruction with the program
  \<open>key 3\<close>, the signing writable account \<open>key 1\<close>, the writable account \<open>key 2\<close> and
  the payload \<open>9\<close>; the fee payer is \<open>key 1\<close>, the block hash is 32 zero bytes.
\<close>

theorem round_trip_witness:
  "iteration_order
     (mergeAccounts [\<lparr>ProgramID = key 3,
        Instruction.Accounts = [\<lparr>PubKey = key 1, IsSigner = True, IsWritable = True\<rparr>,
                                \<lparr>PubKey = key 2, IsSigner = False, IsWritable = True\<rparr>],
        Instruction.Data = [9]\<rparr>]) [key 3, key 1, key 2]
   \<and> base58_Decode zero_hash = Some (replicate 32 0)
   \<and> base58_Encode (replicate 32 0) = zero_hash
   \<and> Serialize base58_Decode (NewMessage [key 3, key 1, key 2] (key 1)
        [\<lparr>ProgramID = key 3,
          Instruction.Accounts = [\<lparr>PubKey = key 1, IsSigner = True, IsWritable = True\<rparr>,
                                  \<lparr>PubKey = key 2, IsSigner = False, IsWritable = True\<rparr>],
          Instruction.Data = [9]\<rparr>] zero_hash)
     = Inr (wire_message (replicate 32 0) (NewMessage [key 3, key 1, key 2] (key 1)
        [\<lparr>ProgramID = key 3,
          Instruction.Accounts = [\<lparr>PubKey = key 1, IsSigner = True, IsWritable = True\<rparr>,
                                  \<lparr>PubKey = key 2, IsSigner = False, IsWritable = True\<rparr>],
          Instruction.Data = [9]\<rparr>] zero_hash))
   \<and> MessageDeserialize base58_Encode (wire_message (replicate 32 0)
        (NewMessage [key 3, key 1, key 2] (key 1)
        [\<lparr>ProgramID = key 3,
          Instruction.Accounts = [\<lparr>PubKey = key 1, IsSigner = True, IsWritable = True\<rparr>,
                                  \<lparr>PubKey = key 2, IsSigner = False, IsWritable = True\<rparr>],
          Instruction.Data = [9]\<rparr>] zero_hash))
     = Inr (NewMessage [key 3, key 1, key 2] (key 1)
        [\<lparr>ProgramID = key 3,
          Instruction.Accounts = [\<lparr>PubKey = key 1, IsSigner = True, IsWritable = True\<rparr>,
                                  \<lparr>PubKey = key 2, IsSigner = False, IsWritable = True\<rparr>],
          Instruction.Data = [9]\<rparr>] zero_hash)"
proof -
  let ?is = "[\<lparr>ProgramID = key 3,
        Instruction.Accounts = [\<lparr>PubKey = key 1, IsSigner = True, IsWritable = True\<rparr>,
                                \<lparr>PubKey = key 2, IsSigner = False, IsWritable = True\<rparr>],
        Instruction.Data = [9]\<rparr>]"
  have io: "iteration_order (mergeAccounts ?is) [key 3, key 1, key 2]"
    by (auto simp: iteration_order_merge mentioned_def)
  have ne: "?is \<noteq> []" and fi: "fits_int ?is"
    by (simp_all add: fits_int_def)
  have each: "list_all (\<lambda>i. Instruction.Accounts i \<noteq> [] \<and> fits_int (Instruction.Accounts i)
                        \<and> length (Instruction.Data i) < 128) ?is"
    by (simp add: fits_int_def)
  have few: "length [key 3, key 1, key 2] < 127"
    by simp
  have k32: "list_all (\<lambda>i. length (ProgramID i) = 32
                        \<and> list_all (\<lambda>a. length (PubKey a) = 32) (Instruction.Accounts i)) ?is"
    by (simp add: key_def)
  have f32: "length (key 1) = 32"
    by (simp add: key_def)
  have d: "base58_Decode zero_hash = Some (replicate 32 0)"
    by code_simp
  have e: "base58_Encode (replicate 32 0) = zero_hash"
    by code_simp
  have l: "length (replicate 32 (0::byte)) = 32"
    by simp
  from round_trip[of ?is "[key 3, key 1, key 2]" "key 1" base58_Decode zero_hash "replicate 32 0"
      base58_Encode] io ne fi each few k32 f32 d e l
  show ?thesis
    by blast
qed

text \<open>
  C3 as stated fails on compiled messages. A message compiled from an instruction without
  accounts makes \<^verbatim>\<open>Serialize\<close> panic on the zero count. A message compiled from an
  instruction with a payload of 256 bytes is serialized with the length byte 0, and
  \<^verbatim>\<open>MessageDeserialize\<close> gives back a message whose instruction has an empty payload.
  With a payload of 128 bytes the length byte \<open>0x80\<close> is read as the first byte of a
  longer varint, and \<^verbatim>\<open>MessageDeserialize\<close> panics.
\<close>

theorem round_trip_counterexample:
  "iteration_order
     (mergeAccounts [\<lparr>ProgramID = key 3, Instruction.Accounts = [], Instruction.Data = [9]\<rparr>])
     [key 3]
   \<and> Serialize base58_Decode
       (NewMessage [key 3] (key 1)
          [\<lparr>ProgramID = key 3, Instruction.Accounts = [], Instruction.Data = [9]\<rparr>] zero_hash)
     = Inl Panic
   \<and> Serialize base58_Decode
       (NewMessage [key 3, key 1] (key 1)
          [\<lparr>ProgramID = key 3,
            Instruction.Accounts = [\<lparr>PubKey = key 1, IsSigner = True, IsWritable = True\<rparr>],
            Instruction.Data = replicate 256 7\<rparr>] zero_hash)
     = Inr ([1, 0, 1, 2] @ key 1 @ key 3 @ replicate 32 0 @ [1, 1, 1, 0, 0] @ replicate 256 7)
   \<and> MessageDeserialize base58_Encode
       ([1, 0, 1, 2] @ key 1 @ key 3 @ replicate 32 0 @ [1, 1, 1, 0, 0] @ replicate 256 7)
     = Inr \<lparr>Header = \<lparr>NumRequireSignatures = 1, NumReadonlySignedAccounts = 0,
                       NumReadonlyUnsignedAccounts = 1\<rparr>,
            Message.Accounts = [key 1, key 3], RecentBlockHash = zero_hash,
            Instructions = [\<lparr>ProgramIDIndex = 1, CompiledInstruction.Accounts = [0],
                             CompiledInstruction.Data = []\<rparr>]\<rparr>
   \<and> Serialize base58_Decode
       (NewMessage [key 3, key 1] (key 1)
          [\<lparr>ProgramID = key 3,
            Instruction.Accounts = [\<lparr>PubKey = key 1, IsSigner = True, IsWritable = True\<rparr>],
            Instruction.Data = replicate 128 7\<rparr>] zero_hash)
     = Inr ([1, 0, 1, 2] @ key 1 @ key 3 @ replicate 32 0 @ [1, 1, 1, 0, 128] @ replicate 128 7)
   \<and> MessageDeserialize base58_Encode
       ([1, 0, 1, 2] @ key 1 @ key 3 @ replicate 32 0 @ [1, 1, 1, 0, 128] @ replicate 128 7)
     = Inl Panic"
proof -
  have h: "iteration_order
     (mergeAccounts [\<lparr>ProgramID = key 3, Instruction.Accounts = [], Instruction.Data = [9]\<rparr>])
     [key 3]"
    by (simp add: iteration_order_merge mentioned_def)
  have a: "Serialize base58_Decode
       (NewMessage [key 3] (key 1)
          [\<lparr>ProgramID = key 3, Instruction.Accounts = [], Instruction.Data = [9]\<rparr>] zero_hash)
     = Inl Panic"
    by code_simp
  have b: "Serialize base58_Decode
       (NewMessage [key 3, key 1] (key 1)
          [\<lparr>ProgramID = key 3,
            Instruction.Accounts = [\<lparr>PubKey = key 1, IsSigner = True, IsWritable = True\<rparr>],
            Instruction.Data = replicate 256 7\<rparr>] zero_hash)
     = Inr ([1, 0, 1, 2] @ key 1 @ key 3 @ replicate 32 0 @ [1, 1, 1, 0, 0] @ replicate 256 7)"
    by code_simp
  have b': "MessageDeserialize base58_Encode
       ([1, 0, 1, 2] @ key 1 @ key 3 @ replicate 32 0 @ [1, 1, 1, 0, 0] @ replicate 256 7)
     = Inr \<lparr>Header = \<lparr>NumRequireSignatures = 1, NumReadonlySignedAccounts = 0,
                       NumReadonlyUnsignedAccounts = 1\<rparr>,
            Message.Accounts = [key 1, key 3], RecentBlockHash = zero_hash,
            Instructions = [\<lparr>ProgramIDIndex = 1, CompiledInstruction.Accounts = [0],
                             CompiledInstruction.Data = []\<rparr>]\<rparr>"
    by code_simp
  have c: "Serialize base58_Decode
       (NewMessage [key 3, key 1] (key 1)
          [\<lparr>ProgramID = key 3,
            Instruction.Accounts = [\<lparr>PubKey = key 1, IsSigner = True, IsWritable = True\<rparr>],
            Instruction.Data = replicate 128 7\<rparr>] zero_hash)
     = Inr ([1, 0, 1, 2] @ key 1 @ key 3 @ replicate 32 0 @ [1, 1, 1, 0, 128] @ replicate 128 7)"
    by code_simp
  have d: "MessageDeserialize base58_Encode
       ([1, 0, 1, 2] @ key 1 @ key 3 @ replicate 32 0 @ [1, 1, 1, 0, 128] @ replicate 128 7)
     = Inl Panic"
    by code_simp
  from h a b b' c d show ?thesis by blast
qed

end
